theory Spec2Isabelle
  imports Complex_Main "HOL-Library.Multiset"
begin

section \<open>The offline synchronisation engine of teachLink\<close>

text \<open>
  The development covers the three source units the offline engine consists of:
  \<^item> \<^verbatim>\<open>services/offlineStorage.ts\<close>: class \<^verbatim>\<open>OfflineStorage\<close>, the envelope store on top of
    AsyncStorage and the persisted sync queue;
  \<^item> \<^verbatim>\<open>services/syncService.ts\<close>: class \<^verbatim>\<open>SyncService\<close>, the sync driver (batches, retries,
    conflict resolution);
  \<^item> \<^verbatim>\<open>hooks/useOfflineData.ts\<close>: the per-record cache with its sync status.

  Conventions. A method becomes a function from the state to a result and the new state.
  A rejected promise or a \<^verbatim>\<open>throw\<close> is the result \<open>Inl err\<close>. What the outside world
  answers (whether an AsyncStorage call rejects, what \<^verbatim>\<open>Date.now()\<close> reads, what the remote
  API returns) is an argument of the function. Calls of \<^verbatim>\<open>logger\<close> append to the log kept in
  the state.
\<close>

subsection \<open>AsyncStorage and the envelope store\<close>

text \<open>A thrown value: an \<^verbatim>\<open>Error\<close> instance with its message, or any other value.\<close>

datatype jserror = Error string | Thrown

text \<open>The calls \<^verbatim>\<open>OfflineStorage\<close> makes on AsyncStorage.\<close>

datatype kvcall = GetItem string | SetItem string | RemoveItem string | Clear | GetAllKeys

text \<open>
  The environment of one method call: \<open>rejects c = Some err\<close> when the AsyncStorage call
  \<open>c\<close> rejects with \<open>err\<close>, and the reading of \<^verbatim>\<open>Date.now()\<close>.
\<close>

record env =
  rejects :: "kvcall \<Rightarrow> jserror option"
  now :: int

datatype level = LInfo | LWarn | LDebug | LError

type_synonym logline = "level \<times> string"

text \<open>\<^verbatim>\<open>interface StorageItem<T> { data; timestamp; version }\<close>\<close>

record 'v StorageItem =
  data :: 'v
  timestamp :: int
  version :: int

text \<open>
  AsyncStorage holds JSON text. The model keeps every value in parsed form, at the type
  parameter \<^verbatim>\<open>T\<close> that \<^verbatim>\<open>store<T>\<close> and \<^verbatim>\<open>retrieve<T>\<close> are called at: a storage of type
  \<open>'v storage\<close> is the part of AsyncStorage whose keys are used at type \<open>'v\<close>.
\<close>

record 'v storage =
  entries :: "string \<rightharpoonup> 'v StorageItem"
  logs :: "logline list"

definition logger :: "level \<Rightarrow> string \<Rightarrow> 'v storage \<Rightarrow> 'v storage" where
  "logger lv msg st = st\<lparr>logs := logs st @ [(lv, msg)]\<rparr>"

definition store :: "string \<Rightarrow> 'v \<Rightarrow> int \<Rightarrow> env \<Rightarrow> 'v storage \<Rightarrow> (jserror + unit) \<times> 'v storage" where
  "store key d ver e st =
     (case rejects e (SetItem key) of
        None \<Rightarrow>
          (Inr (),
           logger LInfo (''Stored data for key: '' @ key)
             (st\<lparr>entries := (entries st)(key \<mapsto> \<lparr>data = d, timestamp = now e, version = ver\<rparr>)\<rparr>))
      | Some err \<Rightarrow>
          (Inl err, logger LError (''Error storing data for key '' @ key @ '':'') st))"

definition retrieve :: "string \<Rightarrow> env \<Rightarrow> 'v storage \<Rightarrow> 'v option \<times> 'v storage" where
  "retrieve key e st =
     (case rejects e (GetItem key) of
        None \<Rightarrow>
          (case entries st key of
             None \<Rightarrow> (None, st)
           | Some item \<Rightarrow> (Some (data item), st))
      | Some err \<Rightarrow>
          (None, logger LError (''Error retrieving data for key '' @ key @ '':'') st))"

definition remove :: "string \<Rightarrow> env \<Rightarrow> 'v storage \<Rightarrow> (jserror + unit) \<times> 'v storage" where
  "remove key e st =
     (case rejects e (RemoveItem key) of
        None \<Rightarrow>
          (Inr (),
           logger LInfo (''Removed data for key: '' @ key) (st\<lparr>entries := (entries st)(key := None)\<rparr>))
      | Some err \<Rightarrow>
          (Inl err, logger LError (''Error removing data for key '' @ key @ '':'') st))"

definition clearAll :: "env \<Rightarrow> 'v storage \<Rightarrow> (jserror + unit) \<times> 'v storage" where
  "clearAll e st =
     (case rejects e Clear of
        None \<Rightarrow> (Inr (), logger LInfo ''Cleared all local storage'' (st\<lparr>entries := Map.empty\<rparr>))
      | Some err \<Rightarrow> (Inl err, logger LError ''Error clearing local storage:'' st))"

subsection \<open>The sync queue\<close>

datatype SyncOperationType = CREATE | UPDATE | DELETE | READ

datatype Priority = High | Medium | Low

text \<open>
  \<^verbatim>\<open>interface SyncOperation\<close>. The payload \<^verbatim>\<open>data?: any\<close> is a type parameter, absent as
  \<open>None\<close>. \<^verbatim>\<open>timestamp\<close> is a reading of \<^verbatim>\<open>Date.now()\<close>; \<^verbatim>\<open>retries\<close> starts at 0 and is only
  ever incremented.
\<close>

record 'a SyncOperation =
  op_id :: string
  op_type :: SyncOperationType
  endpoint :: string
  op_data :: "'a option"
  op_timestamp :: int
  retries :: nat
  maxRetries :: nat
  priority :: Priority

text \<open>\<^verbatim>\<open>SyncOperationInput = Omit<SyncOperation, 'id' | 'timestamp' | 'retries' | 'maxRetries'>\<close>\<close>

record 'a SyncOperationInput =
  in_type :: SyncOperationType
  in_endpoint :: string
  in_data :: "'a option"
  in_priority :: Priority

definition SYNC_QUEUE :: string where
  "SYNC_QUEUE = ''@teachlink_sync_queue''"

definition MAX_RETRIES :: nat where
  "MAX_RETRIES = 3"

fun type_name :: "SyncOperationType \<Rightarrow> string" where
  "type_name CREATE = ''CREATE''"
| "type_name UPDATE = ''UPDATE''"
| "type_name DELETE = ''DELETE''"
| "type_name READ = ''READ''"

text \<open>\<^verbatim>\<open>const priorityOrder = { high: 0, medium: 1, low: 2 }\<close>\<close>

fun priorityOrder :: "Priority \<Rightarrow> int" where
  "priorityOrder High = 0"
| "priorityOrder Medium = 1"
| "priorityOrder Low = 2"

text \<open>The comparator handed to \<^verbatim>\<open>queue.sort\<close>.\<close>

definition compareOps :: "'a SyncOperation \<Rightarrow> 'a SyncOperation \<Rightarrow> int" where
  "compareOps a b =
     (if priorityOrder (priority a) \<noteq> priorityOrder (priority b)
      then priorityOrder (priority a) - priorityOrder (priority b)
      else op_timestamp a - op_timestamp b)"

text \<open>
  \<^verbatim>\<open>Array.prototype.sort(cmp)\<close> is stable; for a comparator that is a consistent weak order,
  as \<open>compareOps\<close> is, its result is the one stable sorted arrangement, which insertion
  from the right computes.
\<close>

fun insertBy :: "('x \<Rightarrow> 'x \<Rightarrow> int) \<Rightarrow> 'x \<Rightarrow> 'x list \<Rightarrow> 'x list" where
  "insertBy cmp x [] = [x]"
| "insertBy cmp x (y # ys) = (if cmp x y \<le> 0 then x # y # ys else y # insertBy cmp x ys)"

definition sortBy :: "('x \<Rightarrow> 'x \<Rightarrow> int) \<Rightarrow> 'x list \<Rightarrow> 'x list" where
  "sortBy cmp xs = foldr (insertBy cmp) xs []"

definition getSyncQueue ::
  "env \<Rightarrow> 'a SyncOperation list storage \<Rightarrow> 'a SyncOperation list \<times> 'a SyncOperation list storage" where
  "getSyncQueue e st =
     (case retrieve SYNC_QUEUE e st of
        (None, st') \<Rightarrow> ([], st')
      | (Some queue, st') \<Rightarrow> (queue, st'))"

text \<open>
  \<^verbatim>\<open>addToSyncQueue\<close>. \<open>newId\<close> is what \<^verbatim>\<open>generateOperationId()\<close> returns and \<open>ts\<close> the
  reading of \<^verbatim>\<open>Date.now()\<close> for the operation's timestamp.
\<close>

definition addToSyncQueue ::
  "'a SyncOperationInput \<Rightarrow> string \<Rightarrow> int \<Rightarrow> env \<Rightarrow> 'a SyncOperation list storage
     \<Rightarrow> (jserror + string) \<times> 'a SyncOperation list storage" where
  "addToSyncQueue operation newId ts e st =
     (let (queue, st1) = getSyncQueue e st;
          syncOp = \<lparr>op_id = newId, op_type = in_type operation, endpoint = in_endpoint operation,
                    op_data = in_data operation, op_timestamp = ts, retries = 0,
                    maxRetries = MAX_RETRIES, priority = in_priority operation\<rparr>;
          sorted_queue = sortBy compareOps (queue @ [syncOp])
      in case store SYNC_QUEUE sorted_queue 1 e st1 of
           (Inr _, st2) \<Rightarrow>
             (Inr newId,
              logger LInfo (''Added operation to sync queue: '' @ type_name (op_type syncOp)
                              @ '' '' @ endpoint syncOp) st2)
         | (Inl err, st2) \<Rightarrow>
             (Inl err, logger LError ''Error adding to sync queue:'' st2))"

definition removeFromSyncQueue ::
  "string \<Rightarrow> env \<Rightarrow> 'a SyncOperation list storage \<Rightarrow> 'a SyncOperation list storage" where
  "removeFromSyncQueue operationId e st =
     (let (queue, st1) = getSyncQueue e st;
          filteredQueue = filter (\<lambda>op. op_id op \<noteq> operationId) queue
      in case store SYNC_QUEUE filteredQueue 1 e st1 of
           (Inr _, st2) \<Rightarrow> logger LInfo (''Removed operation from sync queue: '' @ operationId) st2
         | (Inl err, st2) \<Rightarrow>
             logger LError (''Error removing operation '' @ operationId @ '' from sync queue:'') st2)"

text \<open>
  \<^verbatim>\<open>queue.find(op => op.id === operationId)\<close> yields the first match, and
  \<^verbatim>\<open>operation.retries += 1\<close> updates that element of the array in place.
\<close>

fun bumpRetries :: "string \<Rightarrow> 'a SyncOperation list \<Rightarrow> 'a SyncOperation list" where
  "bumpRetries i [] = []"
| "bumpRetries i (x # xs) =
     (if op_id x = i then x\<lparr>retries := retries x + 1\<rparr> # xs else x # bumpRetries i xs)"

definition incrementRetryCount ::
  "string \<Rightarrow> env \<Rightarrow> 'a SyncOperation list storage \<Rightarrow> 'a SyncOperation list storage" where
  "incrementRetryCount operationId e st =
     (let (queue, st1) = getSyncQueue e st
      in case find (\<lambda>op. op_id op = operationId) queue of
           None \<Rightarrow> st1
         | Some operation \<Rightarrow>
             (case store SYNC_QUEUE (bumpRetries operationId queue) 1 e st1 of
                (Inr _, st2) \<Rightarrow> st2
              | (Inl err, st2) \<Rightarrow>
                  logger LError (''Error incrementing retry count for operation '' @ operationId @ '':'') st2))"

definition getFailedOperations ::
  "env \<Rightarrow> 'a SyncOperation list storage \<Rightarrow> 'a SyncOperation list \<times> 'a SyncOperation list storage" where
  "getFailedOperations e st =
     (let (queue, st1) = getSyncQueue e st
      in (filter (\<lambda>op. retries op \<ge> maxRetries op) queue, st1))"

text \<open>A fresh installation: nothing stored, nothing logged.\<close>

definition empty_storage :: "'v storage" where
  "empty_storage = \<lparr>entries = Map.empty, logs = []\<rparr>"

text \<open>The array persisted under the queue key (the empty array when there is none).\<close>

definition persisted_queue :: "'a SyncOperation list storage \<Rightarrow> 'a SyncOperation list" where
  "persisted_queue st = (case entries st SYNC_QUEUE of None \<Rightarrow> [] | Some item \<Rightarrow> data item)"

text \<open>
  A run of queue operations, each in its own environment (any AsyncStorage call may
  reject at any step, and the clock may read anything).
\<close>

datatype 'a queue_call =
    Enqueue "'a SyncOperationInput" string int
  | Dequeue string
  | IncrementRetry string

fun queue_step :: "'a SyncOperation list storage \<Rightarrow> 'a queue_call \<times> env \<Rightarrow> 'a SyncOperation list storage" where
  "queue_step st (Enqueue operation newId ts, e) = snd (addToSyncQueue operation newId ts e st)"
| "queue_step st (Dequeue i, e) = removeFromSyncQueue i e st"
| "queue_step st (IncrementRetry i, e) = incrementRetryCount i e st"

definition run_queue :: "('a queue_call \<times> env) list \<Rightarrow> 'a SyncOperation list storage" where
  "run_queue calls = foldl queue_step empty_storage calls"

text \<open>High before medium before low, and earlier timestamps first within one priority.\<close>

definition precedes :: "'a SyncOperation \<Rightarrow> 'a SyncOperation \<Rightarrow> bool" where
  "precedes a b \<longleftrightarrow>
     priorityOrder (priority a) < priorityOrder (priority b)
     \<or> (priority a = priority b \<and> op_timestamp a \<le> op_timestamp b)"

definition queue_ordered :: "'a SyncOperation list \<Rightarrow> bool" where
  "queue_ordered q = sorted_wrt precedes q"

text \<open>What \<^verbatim>\<open>filter\<close> and the in-place increment leave alone: identity, priority, enqueue time.\<close>

definition order_key :: "'a SyncOperation \<Rightarrow> string \<times> Priority \<times> int" where
  "order_key op = (op_id op, priority op, op_timestamp op)"

text \<open>What the comparator reads of an operation.\<close>

definition sort_key :: "'a SyncOperation \<Rightarrow> Priority \<times> int" where
  "sort_key op = (priority op, op_timestamp op)"

subsection \<open>The sync driver\<close>

text \<open>\<^verbatim>\<open>interface SyncConfig\<close>, and the values the constructor fills in.\<close>

record SyncConfig =
  maxConcurrentSyncs :: int
  retryDelay :: int
  syncInterval :: int
  batchSize :: int

definition default_config :: SyncConfig where
  "default_config = \<lparr>maxConcurrentSyncs = 3, retryDelay = 5000, syncInterval = 30000, batchSize = 10\<rparr>"

datatype SyncEventType = syncStarted | syncCompleted | syncFailed | operationProcessed | conflictDetected

text \<open>\<^verbatim>\<open>interface SyncEvent\<close>, without the response payload \<^verbatim>\<open>data\<close>, which is not modelled.\<close>

record SyncEvent =
  ev_type :: SyncEventType
  ev_operationId :: "string option"
  ev_error :: "jserror option"
  ev_timestamp :: int

text \<open>
  The driver: its flag, the callbacks handed to \<^verbatim>\<open>setTimeout\<close> and not yet run (each is
  \<^verbatim>\<open>retryOperation(id)\<close>, kept with its delay in milliseconds), the events emitted to the
  listeners, and the storage of the queue.
\<close>

record 'a service =
  isSyncing :: bool
  timers :: "(int \<times> string) list"
  events :: "SyncEvent list"
  queueStore :: "'a SyncOperation list storage"

definition emitEvent :: "SyncEvent \<Rightarrow> 'a service \<Rightarrow> 'a service" where
  "emitEvent event sv = sv\<lparr>events := events sv @ [event]\<rparr>"

definition svlog :: "level \<Rightarrow> string \<Rightarrow> 'a service \<Rightarrow> 'a service" where
  "svlog lv msg sv = sv\<lparr>queueStore := logger lv msg (queueStore sv)\<rparr>"

text \<open>\<^verbatim>\<open>Array.prototype.slice(start, end)\<close>: a negative index counts from the end.\<close>

definition slice :: "'x list \<Rightarrow> int \<Rightarrow> int \<Rightarrow> 'x list" where
  "slice xs start fin =
     (let n = int (length xs);
          k = (if start < 0 then max (n + start) 0 else min start n);
          final = (if fin < 0 then max (n + fin) 0 else min fin n)
      in take (nat (final - k)) (drop (nat k) xs))"

text \<open>
  \<^verbatim>\<open>createBatches\<close>: the loop \<^verbatim>\<open>for (let i = 0; i < array.length; i += batchSize)\<close>. With a
  batch size that is not positive it never ends on a non-empty array; not returning is
  the value \<open>None\<close>.
\<close>

partial_function (option) createBatches_loop ::
  "'x list \<Rightarrow> int \<Rightarrow> int \<Rightarrow> 'x list list \<Rightarrow> 'x list list option" where
  "createBatches_loop array bsize i batches =
     (if i < int (length array)
      then createBatches_loop array bsize (i + bsize) (batches @ [slice array i (i + bsize)])
      else Some batches)"

definition createBatches :: "'x list \<Rightarrow> int \<Rightarrow> 'x list list option" where
  "createBatches array bsize = createBatches_loop array bsize 0 []"

text \<open>
  \<^verbatim>\<open>processBatch\<close> calls \<^verbatim>\<open>processOperation\<close> on these operations, all at once, and awaits
  them together.
\<close>

definition processBatch_dispatched :: "SyncConfig \<Rightarrow> 'x list \<Rightarrow> 'x list" where
  "processBatch_dispatched cfg operations = slice operations 0 (maxConcurrentSyncs cfg)"

text \<open>
  The body of the \<^verbatim>\<open>try\<close> in \<^verbatim>\<open>syncPendingOperations\<close> for a loaded queue: the batches in
  order, each awaited before the next, and for each the operations it dispatches.
\<close>

definition pass_dispatched :: "SyncConfig \<Rightarrow> 'x list \<Rightarrow> 'x list list option" where
  "pass_dispatched cfg queue =
     map_option (map (processBatch_dispatched cfg)) (createBatches queue (batchSize cfg))"

definition calculateRetryDelay :: "SyncConfig \<Rightarrow> nat \<Rightarrow> int" where
  "calculateRetryDelay cfg retryCount = retryDelay cfg * 2 ^ retryCount"

text \<open>
  \<^verbatim>\<open>processOperation\<close>. \<open>outcome\<close> is what the remote call did: \<open>None\<close> when it resolved,
  \<open>Some err\<close> when it rejected with \<open>err\<close>. \<open>operation\<close> is the object the caller holds (the
  one loaded by the pass, or by \<^verbatim>\<open>retryOperation\<close>); the increment is made on the persisted
  queue, so \<open>retries operation\<close> is the count before this failure.
\<close>

definition handlePermanentFailure :: "'a SyncOperation \<Rightarrow> jserror \<Rightarrow> 'a service \<Rightarrow> 'a service" where
  "handlePermanentFailure operation err sv = svlog LError ''Permanent sync failure:'' sv"

definition processOperation ::
  "SyncConfig \<Rightarrow> 'a SyncOperation \<Rightarrow> jserror option \<Rightarrow> env \<Rightarrow> 'a service \<Rightarrow> 'a service" where
  "processOperation cfg operation outcome e sv =
     (let sv0 = svlog LDebug (''Processing operation: '' @ type_name (op_type operation)
                               @ '' '' @ endpoint operation) sv
      in case outcome of
           None \<Rightarrow>
             (let sv1 = sv0\<lparr>queueStore := removeFromSyncQueue (op_id operation) e (queueStore sv0)\<rparr>;
                  sv2 = svlog LInfo (''Operation completed: '' @ op_id operation) sv1
              in emitEvent \<lparr>ev_type = operationProcessed, ev_operationId = Some (op_id operation),
                            ev_error = None, ev_timestamp = now e\<rparr> sv2)
         | Some err \<Rightarrow>
             (let sv1 = svlog LError (''Operation failed: '' @ op_id operation) sv0;
                  sv2 = (if retries operation < maxRetries operation
                         then (let sv3 = sv1\<lparr>queueStore :=
                                          incrementRetryCount (op_id operation) e (queueStore sv1)\<rparr>
                               in sv3\<lparr>timers := timers sv3 @
                                        [(calculateRetryDelay cfg (retries operation), op_id operation)]\<rparr>)
                         else handlePermanentFailure operation err
                                (svlog LError (''Operation failed permanently: '' @ op_id operation) sv1))
              in emitEvent \<lparr>ev_type = syncFailed, ev_operationId = Some (op_id operation),
                            ev_error = Some err, ev_timestamp = now e\<rparr> sv2))"

text \<open>\<^verbatim>\<open>retryOperation\<close>, the callback of the timer: it reads the queue again.\<close>

definition retryOperation ::
  "SyncConfig \<Rightarrow> string \<Rightarrow> jserror option \<Rightarrow> env \<Rightarrow> 'a service \<Rightarrow> 'a service" where
  "retryOperation cfg operationId outcome e sv =
     (let (queue, st1) = getSyncQueue e (queueStore sv);
          sv1 = sv\<lparr>queueStore := st1\<rparr>
      in case find (\<lambda>op. op_id op = operationId) queue of
           None \<Rightarrow> sv1
         | Some operation \<Rightarrow> processOperation cfg operation outcome e sv1)"

text \<open>Consecutive pieces of \<open>n\<close> elements, the last one shorter when the length is no multiple.\<close>

function chunks :: "nat \<Rightarrow> 'x list \<Rightarrow> 'x list list" where
  "chunks n xs = (if n = 0 \<or> xs = [] then [] else take n xs # chunks n (drop n xs))"
  by pat_completeness auto
termination
  by (relation "measure (\<lambda>(n, xs). length xs)") auto

text \<open>An environment in which AsyncStorage accepts the reads and writes of the queue key.\<close>

definition queue_io_ok :: "env \<Rightarrow> bool" where
  "queue_io_ok e \<longleftrightarrow> rejects e (GetItem SYNC_QUEUE) = None \<and> rejects e (SetItem SYNC_QUEUE) = None"

text \<open>
  \<open>n\<close> dispatches of the operation \<open>i\<close> in a row, each one started by the timer callback
  \<^verbatim>\<open>retryOperation(i)\<close> (so each reads the operation from the queue as persisted then) and
  each one rejected by the remote API with \<open>err\<close>.
\<close>

definition failed_dispatches ::
  "SyncConfig \<Rightarrow> string \<Rightarrow> jserror \<Rightarrow> env \<Rightarrow> nat \<Rightarrow> 'a service \<Rightarrow> 'a service" where
  "failed_dispatches cfg i err e n sv = (retryOperation cfg i (Some err) e ^^ n) sv"

text \<open>The driver after \<^verbatim>\<open>addToSyncQueue(operation)\<close> has returned the id \<open>i\<close>.\<close>

definition enqueued :: "'a SyncOperationInput \<Rightarrow> string \<Rightarrow> int \<Rightarrow> env \<Rightarrow> 'a service \<Rightarrow> 'a service" where
  "enqueued operation i ts e sv = sv\<lparr>queueStore := snd (addToSyncQueue operation i ts e (queueStore sv))\<rparr>"

definition find_op :: "string \<Rightarrow> 'a service \<Rightarrow> 'a SyncOperation option" where
  "find_op i sv = find (\<lambda>op. op_id op = i) (persisted_queue (queueStore sv))"

text \<open>Environments and a driver for concrete runs.\<close>

definition accepting :: env where
  "accepting = \<lparr>rejects = (\<lambda>c. None), now = 0\<rparr>"

definition rejecting :: "jserror \<Rightarrow> env" where
  "rejecting err = \<lparr>rejects = (\<lambda>c. Some err), now = 0\<rparr>"

definition rejecting_only :: "kvcall \<Rightarrow> jserror \<Rightarrow> env" where
  "rejecting_only call err = \<lparr>rejects = (\<lambda>c. if c = call then Some err else None), now = 0\<rparr>"

definition idle_service :: "'a service" where
  "idle_service = \<lparr>isSyncing = False, timers = [], events = [], queueStore = empty_storage\<rparr>"

subsection \<open>Conflict resolution\<close>

text \<open>
  The data handed to \<^verbatim>\<open>resolveConflicts\<close> is typed \<^verbatim>\<open>any\<close>: a primitive, an array or a plain
  object. A number is a finite value, negative zero, an infinity or NaN. What an array
  slot or a property holds is a primitive or a reference to some object.
\<close>

datatype number = Finite real | NegZero | PosInfinity | NegInfinity | NaN

datatype prim = Undefined | Null | Bool bool | Num number | Str string

datatype elem = Prim prim | Ref nat

datatype jsdata = Primitive prim | Array "elem list" | Object "string \<rightharpoonup> elem"

datatype ConflictResolutionStrategy = serverWins | clientWins | merge | manual

text \<open>
  What \<^verbatim>\<open>resolveConflicts\<close> returns: one of the data, or for \<^verbatim>\<open>'manual'\<close> the object
  \<^verbatim>\<open>{ local: localData, server: serverData }\<close>, kept as its two fields.
\<close>

datatype resolution = Resolved jsdata | Both jsdata jsdata

fun typeof :: "jsdata \<Rightarrow> string" where
  "typeof (Primitive Undefined) = ''undefined''"
| "typeof (Primitive Null) = ''object''"
| "typeof (Primitive (Bool b)) = ''boolean''"
| "typeof (Primitive (Num n)) = ''number''"
| "typeof (Primitive (Str s)) = ''string''"
| "typeof (Array xs) = ''object''"
| "typeof (Object m) = ''object''"

fun isArray :: "jsdata \<Rightarrow> bool" where
  "isArray (Array xs) = True"
| "isArray _ = False"

text \<open>
  \<^verbatim>\<open>===\<close>: NaN is equal to nothing, itself included; the two zeros are equal; every other
  primitive is equal to itself only, and a reference to the references to the same object.
\<close>

fun strict_eq_number :: "number \<Rightarrow> number \<Rightarrow> bool" where
  "strict_eq_number NaN b = False"
| "strict_eq_number a NaN = False"
| "strict_eq_number NegZero b = (b = NegZero \<or> b = Finite 0)"
| "strict_eq_number a NegZero = (a = Finite 0)"
| "strict_eq_number a b = (a = b)"

fun strict_eq :: "elem \<Rightarrow> elem \<Rightarrow> bool" where
  "strict_eq (Prim (Num a)) (Prim (Num b)) = strict_eq_number a b"
| "strict_eq x y = (x = y)"

text \<open>
  \<^verbatim>\<open>Array.prototype.indexOf\<close>: the first index whose element is equal to the item, or -1.
  The equality is a parameter; the arrays of the program are searched with \<^verbatim>\<open>===\<close>.
\<close>

fun indexOf_from :: "('x \<Rightarrow> 'x \<Rightarrow> bool) \<Rightarrow> nat \<Rightarrow> 'x list \<Rightarrow> 'x \<Rightarrow> int" where
  "indexOf_from eq k [] x = - 1"
| "indexOf_from eq k (y # ys) x = (if eq y x then int k else indexOf_from eq (Suc k) ys x)"

definition indexOf :: "elem list \<Rightarrow> elem \<Rightarrow> int" where
  "indexOf xs x = indexOf_from strict_eq 0 xs x"

text \<open>\<^verbatim>\<open>Array.prototype.filter\<close> with a callback that reads the item and its index.\<close>

definition filter_indexed :: "('x \<Rightarrow> nat \<Rightarrow> bool) \<Rightarrow> 'x list \<Rightarrow> 'x list" where
  "filter_indexed p xs = map fst (filter (\<lambda>(x, i). p x i) (zip xs [0..<length xs]))"

fun show_nat :: "nat \<Rightarrow> string" where
  "show_nat n =
     (if n < 10 then [char_of (48 + n)] else show_nat (n div 10) @ [char_of (48 + n mod 10)])"

text \<open>
  The own enumerable properties that an object spread \<^verbatim>\<open>{ ...v }\<close> copies: those of a plain
  object, the indices of an array or of a string, none for the other primitives.
\<close>

definition indexed_props :: "elem list \<Rightarrow> string \<rightharpoonup> elem" where
  "indexed_props xs = map_of (map (\<lambda>i. (show_nat i, xs ! i)) [0..<length xs])"

fun own_props :: "jsdata \<Rightarrow> string \<rightharpoonup> elem" where
  "own_props (Object m) = m"
| "own_props (Array xs) = indexed_props xs"
| "own_props (Primitive (Str s)) = indexed_props (map (\<lambda>c. Prim (Str [c])) s)"
| "own_props (Primitive p) = Map.empty"

definition mergeData :: "jsdata \<Rightarrow> jsdata \<Rightarrow> jsdata" where
  "mergeData localData serverData =
     (case (localData, serverData) of
        (Array xs, Array ys) \<Rightarrow>
          (let combined = xs @ ys
           in Array (filter_indexed (\<lambda>item index. indexOf combined item = int index) combined))
      | _ \<Rightarrow>
          if typeof localData = ''object'' \<and> typeof serverData = ''object''
          then Object (own_props serverData ++ own_props localData)
          else serverData)"

definition resolveConflicts ::
  "jsdata \<Rightarrow> jsdata \<Rightarrow> ConflictResolutionStrategy \<Rightarrow> env \<Rightarrow> 'a service \<Rightarrow> resolution \<times> 'a service" where
  "resolveConflicts localData serverData strategy e sv =
     (let sv1 = emitEvent \<lparr>ev_type = conflictDetected, ev_operationId = None, ev_error = None,
                           ev_timestamp = now e\<rparr> sv
      in case strategy of
           serverWins \<Rightarrow> (Resolved serverData, sv1)
         | clientWins \<Rightarrow> (Resolved localData, sv1)
         | merge \<Rightarrow> (Resolved (mergeData localData serverData), sv1)
         | manual \<Rightarrow> (Both localData serverData, sv1))"

text \<open>The filter of \<^verbatim>\<open>mergeData\<close> on its own: an item stays where \<^verbatim>\<open>indexOf\<close> finds it.\<close>

definition first_occurrences :: "elem list \<Rightarrow> elem list" where
  "first_occurrences xs = filter_indexed (\<lambda>item index. indexOf xs item = int index) xs"

text \<open>The values on which \<^verbatim>\<open>===\<close> is plain equality: all but NaN and negative zero.\<close>

definition plain :: "elem \<Rightarrow> bool" where
  "plain v \<longleftrightarrow> v \<noteq> Prim (Num NaN) \<and> v \<noteq> Prim (Num NegZero)"

subsection \<open>The sync pass on the event loop\<close>

text \<open>
  \<^verbatim>\<open>syncPendingOperations\<close> is an \<^verbatim>\<open>async\<close> method: a call runs up to its first \<^verbatim>\<open>await\<close> and
  returns a promise; the rest runs later, one stretch per resumption, and other calls can
  run in between. A pass is where one call stands: suspended at
  \<^verbatim>\<open>await this.checkConnectivity()\<close>, at \<^verbatim>\<open>await offlineStorage.getSyncQueue()\<close>, at
  \<^verbatim>\<open>await this.processBatch(batch)\<close> with the batches still to come, or returned.
\<close>

datatype 'a pass =
    AwaitConnectivity
  | AwaitQueue
  | AwaitBatch "'a SyncOperation list list"
  | Returned

text \<open>
  The driver with every call of \<^verbatim>\<open>syncPendingOperations\<close> made so far (in call order) and the
  operations whose remote call has been started (\<^verbatim>\<open>processOperation\<close> runs up to its
  \<^verbatim>\<open>await apiService...\<close> as soon as \<^verbatim>\<open>processBatch\<close> maps over the batch).
\<close>

record 'a driver = "'a service" +
  passes :: "'a pass list"
  remoteCalls :: "'a SyncOperation list"

text \<open>
  What the event loop runs next: a call of \<^verbatim>\<open>syncPendingOperations\<close> (by \<^verbatim>\<open>manualSync\<close> or by
  the interval timer), or the resumption of the pass \<open>k\<close> with the value it awaited.
\<close>

datatype 'a turn =
    Call
  | ConnectivityResolved nat bool
  | QueueLoaded nat "'a SyncOperation list"
  | BatchSettled nat

definition dispatch_batches :: "SyncConfig \<Rightarrow> nat \<Rightarrow> 'a SyncOperation list list \<Rightarrow> 'a driver \<Rightarrow> 'a driver" where
  "dispatch_batches cfg k batches d =
     (case batches of
        [] \<Rightarrow>
          d\<lparr>events := events d @ [\<lparr>ev_type = syncCompleted, ev_operationId = None, ev_error = None,
                                     ev_timestamp = 0\<rparr>],
            isSyncing := False, passes := (passes d)[k := Returned]\<rparr>
      | batch # rest \<Rightarrow>
          d\<lparr>remoteCalls := remoteCalls d @ processBatch_dispatched cfg batch,
            passes := (passes d)[k := AwaitBatch rest]\<rparr>)"

fun run_turn :: "SyncConfig \<Rightarrow> 'a driver \<Rightarrow> 'a turn \<Rightarrow> 'a driver" where
  "run_turn cfg d Call =
     (if isSyncing d then d\<lparr>passes := passes d @ [Returned]\<rparr>
      else d\<lparr>passes := passes d @ [AwaitConnectivity]\<rparr>)"
| "run_turn cfg d (ConnectivityResolved k isConnected) =
     (if k < length (passes d) \<and> passes d ! k = AwaitConnectivity
      then (if \<not> isConnected then d\<lparr>passes := (passes d)[k := Returned]\<rparr>
            else d\<lparr>isSyncing := True, passes := (passes d)[k := AwaitQueue]\<rparr>)
      else d)"
| "run_turn cfg d (QueueLoaded k queue) =
     (if k < length (passes d) \<and> passes d ! k = AwaitQueue
      then (if length queue = 0 then d\<lparr>isSyncing := False, passes := (passes d)[k := Returned]\<rparr>
            else (case createBatches queue (batchSize cfg) of
                    None \<Rightarrow> d
                  | Some batches \<Rightarrow> dispatch_batches cfg k batches d))
      else d)"
| "run_turn cfg d (BatchSettled k) =
     (case (if k < length (passes d) then passes d ! k else Returned) of
        AwaitBatch rest \<Rightarrow> dispatch_batches cfg k rest d
      | _ \<Rightarrow> d)"

definition idle_driver :: "'a driver" where
  "idle_driver = \<lparr>isSyncing = False, timers = [], events = [], queueStore = empty_storage,
                  passes = [], remoteCalls = []\<rparr>"

text \<open>The passes that have set out and not returned.\<close>

definition in_flight :: "'a driver \<Rightarrow> nat" where
  "in_flight d = length (filter (\<lambda>p. p \<noteq> Returned) (passes d))"

text \<open>An operation for concrete runs.\<close>

definition sample_op :: "nat SyncOperation" where
  "sample_op = \<lparr>op_id = ''op_1'', op_type = CREATE, endpoint = ''/courses/42'', op_data = Some 7,
                 op_timestamp = 1000, retries = 0, maxRetries = 3, priority = High\<rparr>"

text \<open>
  The input whose enqueueing with id \<open>op_1\<close> at time 1000 gives \<open>sample_op\<close>; the driver after
  that operation has failed twice (enqueue, first dispatch, one retry); and the copy of the
  operation that a sync pass loading the queue at that moment holds.
\<close>

definition sample_input :: "nat SyncOperationInput" where
  "sample_input = \<lparr>in_type = CREATE, in_endpoint = ''/courses/42'', in_data = Some 7, in_priority = High\<rparr>"

definition after_two_failures :: "nat service" where
  "after_two_failures =
     failed_dispatches default_config ''op_1'' (Error ''Network Error'') accepting 2
       (enqueued sample_input ''op_1'' 1000 accepting idle_service)"

definition held_copy :: "nat SyncOperation" where
  "held_copy = sample_op\<lparr>retries := 2\<rparr>"

subsection \<open>The offline data cache\<close>

datatype DataSyncStatus = Synced | Pending | Conflict | Errored

text \<open>
  An object of the dictionary, as JavaScript has it: each of the six properties of
  \<^verbatim>\<open>interface OfflineDataItem<T>\<close> is there or not (\<open>None\<close> is \<^verbatim>\<open>undefined\<close>; for
  \<^verbatim>\<open>syncAttempts\<close> it also stands for NaN, which \<^verbatim>\<open>undefined + 1\<close> gives).
\<close>

record 'a OfflineDataItem =
  item_id :: "string option"
  item_data :: "'a option"
  status :: "DataSyncStatus option"
  lastModified :: "int option"
  syncAttempts :: "nat option"
  errorMessage :: "string option"

text \<open>
  \<^verbatim>\<open>Record<string, OfflineDataItem<T>>\<close>: the own properties in the order \<^verbatim>\<open>Object.keys\<close> and
  \<^verbatim>\<open>Object.values\<close> enumerate them.
\<close>

type_synonym 'a dict = "(string \<times> 'a OfflineDataItem) list"

text \<open>
  A key that is an array index (the decimal form, without leading zeros, of a number below
  \<open>2^32 - 1\<close>) is enumerated before every other key, in ascending numeric order; the other
  keys follow in the order in which they were created.
\<close>

definition is_digit :: "char \<Rightarrow> bool" where
  "is_digit c \<longleftrightarrow> 48 \<le> (of_char c :: nat) \<and> (of_char c :: nat) \<le> 57"

definition digits_value :: "string \<Rightarrow> nat" where
  "digits_value s = foldl (\<lambda>n c. 10 * n + (of_char c - 48)) 0 s"

definition array_index :: "string \<Rightarrow> nat option" where
  "array_index s =
     (if s \<noteq> [] \<and> list_all is_digit s \<and> (length s = 1 \<or> hd s \<noteq> CHR ''0'')
         \<and> digits_value s < 4294967295
      then Some (digits_value s) else None)"

fun insert_indexed :: "nat \<Rightarrow> string \<Rightarrow> 'v \<Rightarrow> (string \<times> 'v) list \<Rightarrow> (string \<times> 'v) list" where
  "insert_indexed n k v [] = [(k, v)]"
| "insert_indexed n k v ((k', v') # rest) =
     (case array_index k' of
        Some n' \<Rightarrow> if n' < n then (k', v') # insert_indexed n k v rest else (k, v) # (k', v') # rest
      | None \<Rightarrow> (k, v) # (k', v') # rest)"

text \<open>\<^verbatim>\<open>{ ...obj, [k]: v }\<close>: an own property keeps its place, a new one is created.\<close>

definition set_property :: "(string \<times> 'v) list \<Rightarrow> string \<Rightarrow> 'v \<Rightarrow> (string \<times> 'v) list" where
  "set_property obj k v =
     (case map_of obj k of
        Some old \<Rightarrow> map (\<lambda>(k', v'). if k' = k then (k', v) else (k', v')) obj
      | None \<Rightarrow>
          (case array_index k of
             None \<Rightarrow> obj @ [(k, v)]
           | Some n \<Rightarrow> insert_indexed n k v obj))"

text \<open>
  The dictionary is an ordinary object, so \<^verbatim>\<open>data[id]\<close> also finds what it inherits from
  \<^verbatim>\<open>Object.prototype\<close>: for these names it yields a function (for \<^verbatim>\<open>__proto__\<close> the prototype
  itself), which is truthy, has none of the six properties and no own enumerable property
  for a spread to copy.
\<close>

definition object_prototype_keys :: "string list" where
  "object_prototype_keys =
     [''constructor'', ''hasOwnProperty'', ''isPrototypeOf'', ''propertyIsEnumerable'',
      ''toLocaleString'', ''toString'', ''valueOf'', ''__proto__'', ''__defineGetter__'',
      ''__defineSetter__'', ''__lookupGetter__'', ''__lookupSetter__'']"

definition inherited :: "'a OfflineDataItem" where
  "inherited = \<lparr>item_id = None, item_data = None, status = None, lastModified = None,
                syncAttempts = None, errorMessage = None\<rparr>"

text \<open>\<^verbatim>\<open>data[id]\<close>, with \<open>None\<close> for \<^verbatim>\<open>undefined\<close>.\<close>

definition get_property :: "'a dict \<Rightarrow> string \<Rightarrow> 'a OfflineDataItem option" where
  "get_property d k =
     (case map_of d k of
        Some item \<Rightarrow> Some item
      | None \<Rightarrow> if k \<in> set object_prototype_keys then Some inherited else None)"

text \<open>
  One render of \<^verbatim>\<open>useOfflineData(dataType)\<close>: the React state, and the two parts of
  AsyncStorage the hook reaches, the dictionary under its data type and the sync queue.
  The callbacks of the render close over \<open>st_data\<close>.
\<close>

record 'a hook =
  st_data :: "'a dict"
  st_isLoading :: bool
  st_isSyncing :: bool
  dataStore :: "'a dict storage"
  syncStore :: "'a SyncOperation list storage"

text \<open>
  What a callback meets outside: the AsyncStorage environment, \<^verbatim>\<open>isOnline\<close>, and the id and
  timestamp that \<^verbatim>\<open>addToSyncQueue\<close> would give an operation.
\<close>

record callenv =
  io :: env
  isOnline :: bool
  nextOperationId :: string
  operationTime :: int

definition hooklog :: "level \<Rightarrow> string \<Rightarrow> 'a hook \<Rightarrow> 'a hook" where
  "hooklog lv msg w = w\<lparr>dataStore := logger lv msg (dataStore w)\<rparr>"

definition saveData :: "string \<Rightarrow> 'a dict \<Rightarrow> callenv \<Rightarrow> 'a hook \<Rightarrow> (jserror + unit) \<times> 'a hook" where
  "saveData dataType newData e w =
     (case store dataType newData 1 (io e) (dataStore w) of
        (Inr u, st') \<Rightarrow> (Inr (), w\<lparr>dataStore := st', st_data := newData\<rparr>)
      | (Inl err, st') \<Rightarrow>
          (Inl err, hooklog LError (''Error saving '' @ dataType @ '' data:'') (w\<lparr>dataStore := st'\<rparr>)))"

definition enqueue :: "'a SyncOperationInput \<Rightarrow> callenv \<Rightarrow> 'a hook \<Rightarrow> (jserror + string) \<times> 'a hook" where
  "enqueue operation e w =
     (case addToSyncQueue operation (nextOperationId e) (operationTime e) (io e) (syncStore w) of
        (r, q') \<Rightarrow> (r, w\<lparr>syncStore := q'\<rparr>))"


text \<open>\<^verbatim>\<open>error instanceof Error ? error.message : 'Unknown error'\<close>\<close>

fun error_message :: "jserror \<Rightarrow> string" where
  "error_message (Error msg) = msg"
| "error_message Thrown = ''Unknown error''"

definition syncItem :: "string \<Rightarrow> string \<Rightarrow> callenv \<Rightarrow> 'a hook \<Rightarrow> (jserror + unit) \<times> 'a hook" where
  "syncItem dataType ident e w =
     (case get_property (st_data w) ident of
        None \<Rightarrow> (Inr (), w)
      | Some item \<Rightarrow>
          (let w0 = w\<lparr>st_isSyncing := True\<rparr>;
               attempt =
                 (case enqueue \<lparr>in_type = UPDATE, in_endpoint = ''/'' @ dataType @ ''/'' @ ident,
                                 in_data = item_data item, in_priority = High\<rparr> e w0 of
                    (Inl err, w1) \<Rightarrow> (Inl err, w1)
                  | (Inr opid, w1) \<Rightarrow>
                      saveData dataType
                        (set_property (st_data w) ident
                           (item\<lparr>status := Some Pending,
                                 syncAttempts := map_option Suc (syncAttempts item)\<rparr>)) e w1)
           in case attempt of
                (Inr u, w2) \<Rightarrow> (Inr (), w2\<lparr>st_isSyncing := False\<rparr>)
              | (Inl err, w2) \<Rightarrow>
                  (let w3 = hooklog LError (''Error syncing '' @ dataType @ '' item '' @ ident @ '':'') w2;
                       errorItem = item\<lparr>status := Some Errored,
                                        errorMessage := Some (error_message err),
                                        syncAttempts := map_option Suc (syncAttempts item)\<rparr>
                   in case saveData dataType (set_property (st_data w) ident errorItem) e w3 of
                        (Inr u, w4) \<Rightarrow> (Inl err, w4\<lparr>st_isSyncing := False\<rparr>)
                      | (Inl err', w4) \<Rightarrow> (Inl err', w4\<lparr>st_isSyncing := False\<rparr>))))"

definition markAsSynced :: "string \<Rightarrow> string \<Rightarrow> callenv \<Rightarrow> 'a hook \<Rightarrow> (jserror + unit) \<times> 'a hook" where
  "markAsSynced dataType ident e w =
     (case get_property (st_data w) ident of
        None \<Rightarrow> (Inr (), w)
      | Some item \<Rightarrow>
          saveData dataType
            (set_property (st_data w) ident
               (item\<lparr>status := Some Synced, syncAttempts := Some 0, errorMessage := None\<rparr>)) e w)"

definition resolveConflict ::
  "string \<Rightarrow> string \<Rightarrow> 'a \<Rightarrow> ConflictResolutionStrategy \<Rightarrow> callenv \<Rightarrow> 'a hook \<Rightarrow> (jserror + unit) \<times> 'a hook" where
  "resolveConflict dataType ident resolvedData strategy e w =
     (case get_property (st_data w) ident of
        None \<Rightarrow> (Inr (), w)
      | Some item \<Rightarrow>
          (case saveData dataType
                  (set_property (st_data w) ident
                     (item\<lparr>item_data := Some resolvedData, status := Some Pending,
                           lastModified := Some (now (io e)), syncAttempts := Some 0,
                           errorMessage := None\<rparr>)) e w of
             (Inr u, w1) \<Rightarrow> (Inr (), w1)
           | (Inl err, w1) \<Rightarrow>
               (Inl err, hooklog LError (''Error resolving conflict for '' @ dataType @ '' item ''
                                          @ ident @ '':'') w1)))"

text \<open>\<^verbatim>\<open>getItemsByStatus\<close>: the \<^verbatim>\<open>data\<close> of the objects with that status, in \<^verbatim>\<open>Object.values\<close> order.\<close>

definition getItemsByStatus :: "'a dict \<Rightarrow> DataSyncStatus \<Rightarrow> 'a option list" where
  "getItemsByStatus d s = map item_data (filter (\<lambda>item. status item = Some s) (map snd d))"

text \<open>
  \<^verbatim>\<open>syncAll\<close> maps over \<^verbatim>\<open>pendingItems\<close> and calls \<^verbatim>\<open>syncItem(Object.keys(data)[index])\<close> for the
  index of each; these are the arguments of the calls, in order (\<open>None\<close> is \<^verbatim>\<open>undefined\<close>,
  which an index beyond the keys would give). The calls run together under
  \<^verbatim>\<open>Promise.all\<close>; only which calls are made is modelled.
\<close>

definition syncAll_calls :: "'a dict \<Rightarrow> string option list" where
  "syncAll_calls d =
     (let pendingItems = getItemsByStatus d Pending;
          keys = map fst d
      in map (\<lambda>index. if index < length keys then Some (keys ! index) else None)
           [0..<length pendingItems])"

text \<open>The ids of the items whose status is \<^verbatim>\<open>'pending'\<close>.\<close>

definition pending_ids :: "'a dict \<Rightarrow> string list" where
  "pending_ids d = map fst (filter (\<lambda>(k, item). status item = Some Pending) d)"

text \<open>The dictionary as persisted under the data type, and values for concrete runs.\<close>

definition stored_dict :: "string \<Rightarrow> 'a hook \<Rightarrow> 'a dict option" where
  "stored_dict dataType w = map_option data (entries (dataStore w) dataType)"

definition synced_item :: "nat OfflineDataItem" where
  "synced_item = \<lparr>item_id = Some ''a'', item_data = Some 1, status = Some Synced,
                  lastModified = Some 1000, syncAttempts = Some 0, errorMessage = None\<rparr>"

definition pending_item :: "nat OfflineDataItem" where
  "pending_item = \<lparr>item_id = Some ''b'', item_data = Some 2, status = Some Pending,
                   lastModified = Some 2000, syncAttempts = Some 0, errorMessage = None\<rparr>"

definition two_items :: "nat dict" where
  "two_items = [(''a'', synced_item), (''b'', pending_item)]"

definition hook_with :: "'a dict \<Rightarrow> 'a hook" where
  "hook_with d = \<lparr>st_data = d, st_isLoading = False, st_isSyncing = False,
                  dataStore = empty_storage, syncStore = empty_storage\<rparr>"

definition online :: "env \<Rightarrow> callenv" where
  "online e = \<lparr>io = e, isOnline = True, nextOperationId = ''op_1'', operationTime = 1000\<rparr>"



section \<open>Properties\<close>

subsection \<open>Queue ordering\<close>

lemma precedes_iff_compare: "precedes a b \<longleftrightarrow> compareOps a b \<le> 0"
  by (cases "priority a"; cases "priority b") (simp_all add: precedes_def compareOps_def)

lemma precedes_trans: "precedes a b \<Longrightarrow> precedes b c \<Longrightarrow> precedes a c"
  by (auto simp: precedes_def)

lemma precedes_total: "precedes a b \<or> precedes b a"
  by (cases "priority a"; cases "priority b") (auto simp: precedes_def)

lemma set_insertBy: "set (insertBy cmp x xs) = insert x (set xs)"
  by (induction xs) auto

lemma insertBy_ordered:
  "sorted_wrt precedes xs \<Longrightarrow> sorted_wrt precedes (insertBy compareOps x xs)"
proof (induction xs)
  case Nil
  show ?case by simp
next
  case (Cons y ys)
  show ?case
  proof (cases "compareOps x y \<le> 0")
    case True
    then have xy: "precedes x y" by (simp add: precedes_iff_compare)
    have "\<forall>z\<in>set ys. precedes x z"
      using Cons.prems xy by (auto intro: precedes_trans)
    with True xy Cons.prems show ?thesis by simp
  next
    case False
    then have yx: "precedes y x"
      using precedes_total [of x y] by (simp add: precedes_iff_compare)
    from Cons have "sorted_wrt precedes (insertBy compareOps x ys)" by simp
    with False yx Cons.prems show ?thesis by (auto simp: set_insertBy)
  qed
qed

lemma sortBy_ordered: "queue_ordered (sortBy compareOps xs)"
  unfolding queue_ordered_def sortBy_def
  by (induction xs) (simp_all add: insertBy_ordered)

lemma filter_ordered: "queue_ordered q \<Longrightarrow> queue_ordered (filter P q)"
  unfolding queue_ordered_def by (induction q) auto

lemma precedes_key: "order_key a = order_key a' \<Longrightarrow> order_key b = order_key b' \<Longrightarrow>
    precedes a b = precedes a' b'"
  by (simp add: order_key_def precedes_def)

lemma ordered_by_key:
  fixes q q' :: "'a SyncOperation list"
  assumes "map order_key q = map order_key q'"
  shows "queue_ordered q = queue_ordered q'"
proof -
  define kprec :: "string \<times> Priority \<times> int \<Rightarrow> string \<times> Priority \<times> int \<Rightarrow> bool"
    where "kprec = (\<lambda>(i, p, t) (j, p', t'). priorityOrder p < priorityOrder p' \<or> (p = p' \<and> t \<le> t'))"
  have "(precedes :: 'a SyncOperation \<Rightarrow> _) = (\<lambda>a b. kprec (order_key a) (order_key b))"
    by (intro ext) (simp add: kprec_def precedes_def order_key_def)
  then have k: "queue_ordered r = sorted_wrt kprec (map order_key r)" for r :: "'a SyncOperation list"
    by (simp add: queue_ordered_def sorted_wrt_map)
  have "queue_ordered q = sorted_wrt kprec (map order_key q)" by (rule k)
  also have "\<dots> = sorted_wrt kprec (map order_key q')" by (simp only: assms)
  also have "\<dots> = queue_ordered q'" by (rule k [symmetric])
  finally show ?thesis .
qed

lemma bumpRetries_key: "map order_key (bumpRetries i q) = map order_key q"
  by (induction q) (simp_all add: order_key_def)

lemma getSyncQueue_cases:
  "fst (getSyncQueue e st) = persisted_queue st \<or> fst (getSyncQueue e st) = []"
  by (simp add: getSyncQueue_def retrieve_def persisted_queue_def split: option.splits)

lemma getSyncQueue_entries [simp]: "entries (snd (getSyncQueue e st)) = entries st"
  by (simp add: getSyncQueue_def retrieve_def logger_def split: option.splits)

lemma entries_logger [simp]: "entries (logger lv msg st) = entries st"
  by (simp add: logger_def)

lemma persisted_logger [simp]: "persisted_queue (logger lv msg st) = persisted_queue st"
  by (simp add: persisted_queue_def)

lemma persisted_getSyncQueue [simp]: "persisted_queue (snd (getSyncQueue e st)) = persisted_queue st"
  by (simp add: persisted_queue_def)

lemma persisted_store:
  "persisted_queue (snd (store SYNC_QUEUE q v e st)) =
     (if rejects e (SetItem SYNC_QUEUE) = None then q else persisted_queue st)"
  by (simp add: store_def persisted_queue_def logger_def split: option.splits)

lemma persisted_add:
  "persisted_queue (snd (addToSyncQueue operation newId ts e st)) = persisted_queue st
   \<or> (\<exists>q. persisted_queue (snd (addToSyncQueue operation newId ts e st)) = sortBy compareOps q)"
proof -
  obtain q st1 where g: "getSyncQueue e st = (q, st1)" by (cases "getSyncQueue e st")
  then have st1: "persisted_queue st1 = persisted_queue st"
    using persisted_getSyncQueue [of e st] by simp
  define syncOp :: "'a SyncOperation" where
    "syncOp = \<lparr>op_id = newId, op_type = in_type operation, endpoint = in_endpoint operation,
                op_data = in_data operation, op_timestamp = ts, retries = 0,
                maxRetries = MAX_RETRIES, priority = in_priority operation\<rparr>"
  obtain r st2 where s: "store SYNC_QUEUE (sortBy compareOps (q @ [syncOp])) 1 e st1 = (r, st2)"
    by (cases "store SYNC_QUEUE (sortBy compareOps (q @ [syncOp])) 1 e st1")
  then have st2: "persisted_queue st2 =
      (if rejects e (SetItem SYNC_QUEUE) = None then sortBy compareOps (q @ [syncOp])
       else persisted_queue st)"
    using persisted_store [of "sortBy compareOps (q @ [syncOp])" 1 e st1] st1 by simp
  have "persisted_queue (snd (addToSyncQueue operation newId ts e st)) = persisted_queue st2"
    using g s by (cases r) (simp_all add: addToSyncQueue_def syncOp_def)
  with st2 show ?thesis by auto
qed

lemma persisted_remove:
  "persisted_queue (removeFromSyncQueue i e st) \<in>
     {filter (\<lambda>op. op_id op \<noteq> i) (persisted_queue st), persisted_queue st, []}"
proof -
  obtain q st1 where g: "getSyncQueue e st = (q, st1)" by (cases "getSyncQueue e st")
  then have q: "q = persisted_queue st \<or> q = []" and st1: "persisted_queue st1 = persisted_queue st"
    using getSyncQueue_cases [of e st] persisted_getSyncQueue [of e st] by simp_all
  obtain r st2 where s: "store SYNC_QUEUE (filter (\<lambda>op. op_id op \<noteq> i) q) 1 e st1 = (r, st2)"
    by (cases "store SYNC_QUEUE (filter (\<lambda>op. op_id op \<noteq> i) q) 1 e st1")
  then have st2: "persisted_queue st2 =
      (if rejects e (SetItem SYNC_QUEUE) = None then filter (\<lambda>op. op_id op \<noteq> i) q
       else persisted_queue st)"
    using persisted_store [of "filter (\<lambda>op. op_id op \<noteq> i) q" 1 e st1] st1 by simp
  have "persisted_queue (removeFromSyncQueue i e st) = persisted_queue st2"
    using g s by (cases r) (simp_all add: removeFromSyncQueue_def)
  with st2 q show ?thesis by auto
qed

lemma persisted_increment:
  "persisted_queue (incrementRetryCount i e st) \<in>
     {bumpRetries i (persisted_queue st), persisted_queue st}"
proof -
  obtain q st1 where g: "getSyncQueue e st = (q, st1)" by (cases "getSyncQueue e st")
  then have q: "q = persisted_queue st \<or> q = []" and st1: "persisted_queue st1 = persisted_queue st"
    using getSyncQueue_cases [of e st] persisted_getSyncQueue [of e st] by simp_all
  show ?thesis
  proof (cases "find (\<lambda>op. op_id op = i) q")
    case None
    with g st1 show ?thesis by (simp add: incrementRetryCount_def)
  next
    case (Some operation)
    then have "q \<noteq> []" by auto
    with q have qq: "q = persisted_queue st" by simp
    obtain r st2 where s: "store SYNC_QUEUE (bumpRetries i q) 1 e st1 = (r, st2)"
      by (cases "store SYNC_QUEUE (bumpRetries i q) 1 e st1")
    then have st2: "persisted_queue st2 =
        (if rejects e (SetItem SYNC_QUEUE) = None then bumpRetries i q else persisted_queue st)"
      using persisted_store [of "bumpRetries i q" 1 e st1] st1 by simp
    have "persisted_queue (incrementRetryCount i e st) = persisted_queue st2"
      using g s Some by (cases r) (simp_all add: incrementRetryCount_def)
    with st2 qq show ?thesis by auto
  qed
qed

lemma queue_step_ordered:
  assumes "queue_ordered (persisted_queue st)"
  shows "queue_ordered (persisted_queue (queue_step st c))"
proof (cases c)
  case (Pair call e)
  show ?thesis
  proof (cases call)
    case (Enqueue operation newId ts)
    with Pair assms persisted_add [of operation newId ts e st] show ?thesis
      by (auto simp: sortBy_ordered)
  next
    case (Dequeue i)
    have "queue_ordered []" by (simp add: queue_ordered_def)
    with Dequeue Pair assms persisted_remove [of i e st] show ?thesis
      by (auto simp: filter_ordered)
  next
    case (IncrementRetry i)
    with Pair assms persisted_increment [of i e st] show ?thesis
      using ordered_by_key [OF bumpRetries_key, of i "persisted_queue st"] by auto
  qed
qed

lemma foldl_queue_ordered:
  "queue_ordered (persisted_queue st) \<Longrightarrow> queue_ordered (persisted_queue (foldl queue_step st calls))"
  by (induction calls arbitrary: st) (simp_all add: queue_step_ordered)

lemma run_queue_ordered: "queue_ordered (persisted_queue (run_queue calls))"
  unfolding run_queue_def
  by (rule foldl_queue_ordered) (simp add: persisted_queue_def empty_storage_def queue_ordered_def)

lemma mset_insertBy: "mset (insertBy cmp x xs) = add_mset x (mset xs)"
  by (induction xs) simp_all

lemma mset_sortBy: "mset (sortBy cmp xs) = mset xs"
  by (induction xs) (simp_all add: sortBy_def mset_insertBy)

lemma compare_same_key: "sort_key x = sort_key y \<Longrightarrow> compareOps x y \<le> 0"
  by (simp add: sort_key_def compareOps_def)

lemma filter_insertBy:
  "filter (\<lambda>op. sort_key op = k) (insertBy compareOps x xs)
     = (if sort_key x = k then x # filter (\<lambda>op. sort_key op = k) xs
        else filter (\<lambda>op. sort_key op = k) xs)"
proof (induction xs)
  case Nil
  show ?case by simp
next
  case (Cons y ys)
  show ?case
  proof (cases "compareOps x y \<le> 0")
    case True
    then show ?thesis by simp
  next
    case False
    then have "sort_key x \<noteq> sort_key y" using compare_same_key [of x y] by blast
    with False Cons show ?thesis by auto
  qed
qed

lemma sortBy_stable:
  "filter (\<lambda>op. sort_key op = k) (sortBy compareOps q) = filter (\<lambda>op. sort_key op = k) q"
  by (induction q) (simp_all add: sortBy_def filter_insertBy)

lemma getSyncQueue_value:
  "fst (getSyncQueue e st) = (if rejects e (GetItem SYNC_QUEUE) = None then persisted_queue st else [])"
  by (simp add: getSyncQueue_def retrieve_def persisted_queue_def split: option.splits)

lemma add_persists:
  "persisted_queue (snd (addToSyncQueue operation newId ts e st)) =
     (if rejects e (SetItem SYNC_QUEUE) = None
      then sortBy compareOps (fst (getSyncQueue e st) @
             [\<lparr>op_id = newId, op_type = in_type operation, endpoint = in_endpoint operation,
               op_data = in_data operation, op_timestamp = ts, retries = 0,
               maxRetries = 3, priority = in_priority operation\<rparr>])
      else persisted_queue st)"
proof -
  obtain q st1 where g: "getSyncQueue e st = (q, st1)" by (cases "getSyncQueue e st")
  then have st1: "persisted_queue st1 = persisted_queue st"
    using persisted_getSyncQueue [of e st] by simp
  define syncOp :: "'a SyncOperation" where
    "syncOp = \<lparr>op_id = newId, op_type = in_type operation, endpoint = in_endpoint operation,
                op_data = in_data operation, op_timestamp = ts, retries = 0,
                maxRetries = MAX_RETRIES, priority = in_priority operation\<rparr>"
  obtain r st2 where s: "store SYNC_QUEUE (sortBy compareOps (q @ [syncOp])) 1 e st1 = (r, st2)"
    by (cases "store SYNC_QUEUE (sortBy compareOps (q @ [syncOp])) 1 e st1")
  then have st2: "persisted_queue st2 =
      (if rejects e (SetItem SYNC_QUEUE) = None then sortBy compareOps (q @ [syncOp])
       else persisted_queue st)"
    using persisted_store [of "sortBy compareOps (q @ [syncOp])" 1 e st1] st1 by simp
  have "persisted_queue (snd (addToSyncQueue operation newId ts e st)) = persisted_queue st2"
    using g s by (cases r) (simp_all add: addToSyncQueue_def syncOp_def)
  with st2 g show ?thesis by (simp add: syncOp_def MAX_RETRIES_def)
qed

lemma add_returns:
  "fst (addToSyncQueue operation newId ts e st) =
     (case rejects e (SetItem SYNC_QUEUE) of None \<Rightarrow> Inr newId | Some err \<Rightarrow> Inl err)"
proof -
  obtain q st1 where g: "getSyncQueue e st = (q, st1)" by (cases "getSyncQueue e st")
  show ?thesis
    by (cases "rejects e (SetItem SYNC_QUEUE)")
       (simp_all add: addToSyncQueue_def g store_def)
qed

lemma remove_persists:
  "persisted_queue (removeFromSyncQueue i e st) =
     (if rejects e (SetItem SYNC_QUEUE) = None
      then filter (\<lambda>op. op_id op \<noteq> i) (fst (getSyncQueue e st))
      else persisted_queue st)"
proof -
  obtain q st1 where g: "getSyncQueue e st = (q, st1)" by (cases "getSyncQueue e st")
  then have st1: "persisted_queue st1 = persisted_queue st"
    using persisted_getSyncQueue [of e st] by simp
  obtain r st2 where s: "store SYNC_QUEUE (filter (\<lambda>op. op_id op \<noteq> i) q) 1 e st1 = (r, st2)"
    by (cases "store SYNC_QUEUE (filter (\<lambda>op. op_id op \<noteq> i) q) 1 e st1")
  then have st2: "persisted_queue st2 =
      (if rejects e (SetItem SYNC_QUEUE) = None then filter (\<lambda>op. op_id op \<noteq> i) q
       else persisted_queue st)"
    using persisted_store [of "filter (\<lambda>op. op_id op \<noteq> i) q" 1 e st1] st1 by simp
  have "persisted_queue (removeFromSyncQueue i e st) = persisted_queue st2"
    using g s by (cases r) (simp_all add: removeFromSyncQueue_def)
  with st2 g show ?thesis by simp
qed

lemma increment_persists:
  "persisted_queue (incrementRetryCount i e st) =
     (if rejects e (GetItem SYNC_QUEUE) = None \<and> rejects e (SetItem SYNC_QUEUE) = None
      then bumpRetries i (persisted_queue st)
      else persisted_queue st)"
proof -
  obtain q st1 where g: "getSyncQueue e st = (q, st1)" by (cases "getSyncQueue e st")
  then have q: "q = (if rejects e (GetItem SYNC_QUEUE) = None then persisted_queue st else [])"
    and st1: "persisted_queue st1 = persisted_queue st"
    using getSyncQueue_value [of e st] persisted_getSyncQueue [of e st] by simp_all
  show ?thesis
  proof (cases "find (\<lambda>op. op_id op = i) q")
    case None
    have absent: "bumpRetries i q = q" using None by (induction q) (auto split: if_splits)
    have "persisted_queue (incrementRetryCount i e st) = persisted_queue st"
      using g st1 None by (simp add: incrementRetryCount_def)
    with absent q show ?thesis by (auto split: if_splits)
  next
    case (Some operation)
    then have "q \<noteq> []" by auto
    with q have qq: "q = persisted_queue st" and rd: "rejects e (GetItem SYNC_QUEUE) = None"
      by (auto split: if_splits)
    obtain r st2 where s: "store SYNC_QUEUE (bumpRetries i q) 1 e st1 = (r, st2)"
      by (cases "store SYNC_QUEUE (bumpRetries i q) 1 e st1")
    then have st2: "persisted_queue st2 =
        (if rejects e (SetItem SYNC_QUEUE) = None then bumpRetries i q else persisted_queue st)"
      using persisted_store [of "bumpRetries i q" 1 e st1] st1 by simp
    have "persisted_queue (incrementRetryCount i e st) = persisted_queue st2"
      using g s Some by (cases r) (simp_all add: incrementRetryCount_def)
    with st2 qq rd show ?thesis by simp
  qed
qed

text \<open>
  Claim C1. After any sequence of enqueue, remove and retry-increment calls on a fresh
  storage, whatever the storage environment does at each step, the array that
  \<^verbatim>\<open>getSyncQueue\<close> returns is sorted by priority rank and, within one priority, by
  ascending timestamp. \<^verbatim>\<open>addToSyncQueue\<close> appends the new operation (retries 0, ceiling 3) to
  the array it read, sorts the whole array and persists it, unless the write is rejected,
  which it throws on; the sort keeps every operation, puts them in order, and leaves
  operations of one priority and timestamp in the order they had. Removal persists the
  array it read without the operations of that id, and retry-increment persists it with
  the first operation of that id counted up; both leave the rest in place (identity,
  priority and timestamp of every position as they were), neither sorts, and a rejected
  write leaves the persisted array as it was.
\<close>

theorem sync_queue_always_ordered:
  "queue_ordered (fst (getSyncQueue e (run_queue calls)))
   \<and> persisted_queue (removeFromSyncQueue i e' st) \<in>
       {filter (\<lambda>op. op_id op \<noteq> i) (persisted_queue st), persisted_queue st, []}
   \<and> map order_key (persisted_queue (incrementRetryCount i e' st)) = map order_key (persisted_queue st)
   \<and> fst (getSyncQueue e' st)
       = (if rejects e' (GetItem SYNC_QUEUE) = None then persisted_queue st else [])
   \<and> fst (addToSyncQueue operation newId ts e' st)
       = (case rejects e' (SetItem SYNC_QUEUE) of None \<Rightarrow> Inr newId | Some err \<Rightarrow> Inl err)
   \<and> persisted_queue (snd (addToSyncQueue operation newId ts e' st))
       = (if rejects e' (SetItem SYNC_QUEUE) = None
          then sortBy compareOps (fst (getSyncQueue e' st) @
                 [\<lparr>op_id = newId, op_type = in_type operation, endpoint = in_endpoint operation,
                   op_data = in_data operation, op_timestamp = ts, retries = 0,
                   maxRetries = 3, priority = in_priority operation\<rparr>])
          else persisted_queue st)
   \<and> mset (sortBy compareOps q) = mset q
   \<and> queue_ordered (sortBy compareOps q)
   \<and> (\<forall>k. filter (\<lambda>op. sort_key op = k) (sortBy compareOps q) = filter (\<lambda>op. sort_key op = k) q)
   \<and> persisted_queue (removeFromSyncQueue i e' st)
       = (if rejects e' (SetItem SYNC_QUEUE) = None
          then filter (\<lambda>op. op_id op \<noteq> i) (fst (getSyncQueue e' st))
          else persisted_queue st)
   \<and> persisted_queue (incrementRetryCount i e' st)
       = (if rejects e' (GetItem SYNC_QUEUE) = None \<and> rejects e' (SetItem SYNC_QUEUE) = None
          then bumpRetries i (persisted_queue st)
          else persisted_queue st)"
proof (intro conjI)
  have "queue_ordered []" by (simp add: queue_ordered_def)
  then show "queue_ordered (fst (getSyncQueue e (run_queue calls)))"
    using getSyncQueue_cases [of e "run_queue calls"] run_queue_ordered [of calls] by auto
next
  show "persisted_queue (removeFromSyncQueue i e' st) \<in>
       {filter (\<lambda>op. op_id op \<noteq> i) (persisted_queue st), persisted_queue st, []}"
    by (rule persisted_remove)
next
  show "map order_key (persisted_queue (incrementRetryCount i e' st)) = map order_key (persisted_queue st)"
    using persisted_increment [of i e' st] bumpRetries_key [of i "persisted_queue st"] by auto
next
  show "\<forall>k. filter (\<lambda>op. sort_key op = k) (sortBy compareOps q) = filter (\<lambda>op. sort_key op = k) q"
    by (simp add: sortBy_stable)
qed (rule getSyncQueue_value add_returns add_persists mset_sortBy sortBy_ordered
       remove_persists increment_persists)+

subsection \<open>Batches of a sync pass\<close>

declare chunks.simps [simp del]

lemma slice_window:
  assumes "i \<le> length xs"
  shows "slice xs (int i) (int i + int b) = take b (drop i xs)"
proof -
  have "nat (min (int i + int b) (int (length xs)) - int i) = min b (length xs - i)"
    using assms by (cases "i + b \<le> length xs") (simp_all add: min_def, linarith+)
  moreover have "take (min b (length xs - i)) (drop i xs) = take b (drop i xs)"
    by (simp add: min_def)
  ultimately show ?thesis
    using assms by (simp add: slice_def Let_def min_absorb1)
qed

lemma slice_prefix: "0 \<le> m \<Longrightarrow> slice xs 0 m = take (nat m) xs"
proof (cases "m \<le> int (length xs)")
  case True
  moreover assume "0 \<le> m"
  ultimately show ?thesis by (simp add: slice_def Let_def min_def)
next
  case False
  then have "length xs \<le> nat m" by linarith
  with False show ?thesis by (simp add: slice_def Let_def min_def)
qed

lemma createBatches_loop_chunks:
  assumes "0 < b"
  shows "i \<le> length xs \<Longrightarrow>
    createBatches_loop xs (int b) (int i) acc = Some (acc @ chunks b (drop i xs))"
proof (induction "length xs - i" arbitrary: i acc rule: less_induct)
  case less
  show ?case
  proof (cases "i < length xs")
    case False
    with less.prems have "drop i xs = []" by simp
    with False show ?thesis
      by (subst createBatches_loop.simps) (simp add: chunks.simps)
  next
    case True
    show ?thesis
    proof (cases "i + b \<le> length xs")
      case le: True
      have m: "length xs - (i + b) < length xs - i" using True assms by simp
      have "createBatches_loop xs (int b) (int i) acc =
            createBatches_loop xs (int b) (int (i + b)) (acc @ [take b (drop i xs)])"
        using True less.prems slice_window [of i xs b]
        by (subst createBatches_loop.simps) simp
      also have "\<dots> = Some ((acc @ [take b (drop i xs)]) @ chunks b (drop (i + b) xs))"
        by (rule less.hyps [OF m le])
      also have "\<dots> = Some (acc @ chunks b (drop i xs))"
        using True assms by (subst (2) chunks.simps) (simp add: add.commute)
      finally show ?thesis .
    next
      case gt: False
      then have short: "drop b (drop i xs) = []" by simp
      have "createBatches_loop xs (int b) (int i) acc =
            createBatches_loop xs (int b) (int i + int b) (acc @ [take b (drop i xs)])"
        using True less.prems slice_window [of i xs b]
        by (subst createBatches_loop.simps) simp
      also have "\<dots> = Some (acc @ [take b (drop i xs)])"
        using gt by (subst createBatches_loop.simps) simp
      also have "\<dots> = Some (acc @ chunks b (drop i xs))"
      proof -
        have "chunks b ([] :: 'a list) = []" by (subst chunks.simps) simp
        moreover have "chunks b (drop i xs) = take b (drop i xs) # chunks b (drop b (drop i xs))"
          using True assms by (subst chunks.simps) (simp del: drop_drop)
        ultimately show ?thesis using short by simp
      qed
      finally show ?thesis .
    qed
  qed
qed

lemma createBatches_chunks: "0 < b \<Longrightarrow> createBatches xs (int b) = Some (chunks b xs)"
  using createBatches_loop_chunks [of b 0 xs "[]"] by (simp add: createBatches_def)

lemma concat_chunks: "0 < n \<Longrightarrow> concat (chunks n xs) = xs"
proof (induction n xs rule: chunks.induct)
  case (1 n xs)
  then show ?case by (subst chunks.simps) auto
qed

lemma chunks_nonempty: "[] \<notin> set (chunks n xs)"
proof (induction n xs rule: chunks.induct)
  case (1 n xs)
  then show ?case by (subst chunks.simps) auto
qed

lemma nth_chunks:
  "0 < n \<Longrightarrow> k < length (chunks n xs) \<Longrightarrow> chunks n xs ! k = take n (drop (k * n) xs)"
proof (induction n xs arbitrary: k rule: chunks.induct)
  case (1 n xs)
  from 1(3) have ne: "xs \<noteq> []" by (subst (asm) chunks.simps) (auto split: if_splits)
  have unfold: "chunks n xs = take n xs # chunks n (drop n xs)"
    using ne 1(2) by (subst chunks.simps) simp
  show ?case
  proof (cases k)
    case 0
    with unfold show ?thesis by simp
  next
    case (Suc j)
    with 1(3) unfold have "j < length (chunks n (drop n xs))" by simp
    with 1(1) [of j] ne 1(2) have "chunks n (drop n xs) ! j = take n (drop (j * n) (drop n xs))"
      by simp
    with Suc unfold show ?thesis by (simp add: add.commute)
  qed
qed

text \<open>
  Claim C8. With a positive batch size and a non-negative concurrency limit, a sync pass
  cuts the loaded queue, in order, into consecutive non-empty batches of \<open>batchSize\<close>
  operations (the \<open>k\<close>-th batch starts at position \<open>k * batchSize\<close>), takes them one after
  the other, and dispatches from each batch exactly its first \<open>maxConcurrentSyncs\<close>
  operations: the rest of the batch is not dispatched in that pass. The defaults are 10
  and 3.
\<close>

theorem sync_pass_batches:
  assumes "0 < batchSize cfg" and "0 \<le> maxConcurrentSyncs cfg"
  shows "\<exists>batches.
           createBatches queue (batchSize cfg) = Some batches
         \<and> concat batches = queue
         \<and> [] \<notin> set batches
         \<and> (\<forall>k<length batches.
               batches ! k = take (nat (batchSize cfg)) (drop (k * nat (batchSize cfg)) queue))
         \<and> pass_dispatched cfg queue = Some (map (take (nat (maxConcurrentSyncs cfg))) batches)
         \<and> batchSize default_config = 10 \<and> maxConcurrentSyncs default_config = 3"
proof -
  define b where "b = nat (batchSize cfg)"
  with assms have b: "0 < b" "batchSize cfg = int b" by simp_all
  have cb: "createBatches queue (batchSize cfg) = Some (chunks b queue)"
    using createBatches_chunks [OF b(1), of queue] b(2) by simp
  have disp: "processBatch_dispatched cfg = take (nat (maxConcurrentSyncs cfg))"
    using assms(2) by (intro ext) (simp add: processBatch_dispatched_def slice_prefix)
  have "pass_dispatched cfg queue = Some (map (take (nat (maxConcurrentSyncs cfg))) (chunks b queue))"
    by (simp add: pass_dispatched_def cb disp)
  moreover have "\<forall>k<length (chunks b queue). chunks b queue ! k = take b (drop (k * b) queue)"
    using nth_chunks [OF b(1)] by blast
  ultimately show ?thesis
    using cb concat_chunks [OF b(1), of queue] chunks_nonempty [of b queue]
    by (simp add: b_def default_config_def)
qed

theorem sync_pass_batches_witness:
  "(0::int) < batchSize default_config \<and> (0::int) \<le> maxConcurrentSyncs default_config
   \<and> (\<exists>batches.
           createBatches ''abcdefghijkl'' (batchSize default_config) = Some batches
         \<and> concat batches = ''abcdefghijkl''
         \<and> [] \<notin> set batches
         \<and> (\<forall>k<length batches.
               batches ! k = take (nat (batchSize default_config))
                               (drop (k * nat (batchSize default_config)) ''abcdefghijkl''))
         \<and> pass_dispatched default_config ''abcdefghijkl''
             = Some (map (take (nat (maxConcurrentSyncs default_config))) batches)
         \<and> batchSize default_config = 10 \<and> maxConcurrentSyncs default_config = 3)"
proof -
  have h1: "0 < batchSize default_config" and h2: "0 \<le> maxConcurrentSyncs default_config"
    by (simp_all add: default_config_def)
  show ?thesis
    using h1 h2 sync_pass_batches [OF h1 h2, of "''abcdefghijkl''"] by blast
qed

subsection \<open>Retries\<close>

lemma timers_svlog [simp]: "timers (svlog lv msg sv) = timers sv"
  by (simp add: svlog_def)

lemma timers_emitEvent [simp]: "timers (emitEvent ev sv) = timers sv"
  by (simp add: emitEvent_def)

lemma queueStore_emitEvent [simp]: "queueStore (emitEvent ev sv) = queueStore sv"
  by (simp add: emitEvent_def)

lemma persisted_svlog [simp]: "persisted_queue (queueStore (svlog lv msg sv)) = persisted_queue (queueStore sv)"
  by (simp add: svlog_def)

text \<open>
  Claim C4. A dispatch that fails while the operation's retry count \<open>k\<close> is below its
  ceiling hands \<^verbatim>\<open>setTimeout\<close> one callback, with the delay \<open>retryDelay * 2 ^ k\<close>; with the
  default base of 5000 ms the delays for \<open>k = 0, 1, 2\<close> are 5000, 10000 and 20000.
\<close>

theorem retry_delay_doubles:
  assumes "retries operation < maxRetries operation"
  shows "timers (processOperation cfg operation (Some err) e sv)
           = timers sv @ [(retryDelay cfg * 2 ^ retries operation, op_id operation)]
         \<and> map (calculateRetryDelay default_config) [0, 1, 2] = [5000, 10000, 20000]"
  using assms
  by (simp add: processOperation_def Let_def calculateRetryDelay_def default_config_def)

theorem retry_delay_doubles_witness:
  "retries \<lparr>op_id = ''op_1'', op_type = UPDATE, endpoint = ''/courses/42'', op_data = Some (7::nat),
            op_timestamp = 1000, retries = 1, maxRetries = 3, priority = Medium\<rparr>
     < maxRetries \<lparr>op_id = ''op_1'', op_type = UPDATE, endpoint = ''/courses/42'', op_data = Some (7::nat),
            op_timestamp = 1000, retries = 1, maxRetries = 3, priority = Medium\<rparr>
   \<and> timers (processOperation default_config
               \<lparr>op_id = ''op_1'', op_type = UPDATE, endpoint = ''/courses/42'', op_data = Some (7::nat),
                 op_timestamp = 1000, retries = 1, maxRetries = 3, priority = Medium\<rparr>
               (Some (Error ''Network Error'')) accepting idle_service)
       = [(10000, ''op_1'')]"
proof -
  have h: "retries \<lparr>op_id = ''op_1'', op_type = UPDATE, endpoint = ''/courses/42'', op_data = Some (7::nat),
            op_timestamp = 1000, retries = 1, maxRetries = 3, priority = Medium\<rparr>
     < maxRetries \<lparr>op_id = ''op_1'', op_type = UPDATE, endpoint = ''/courses/42'', op_data = Some (7::nat),
            op_timestamp = 1000, retries = 1, maxRetries = 3, priority = Medium\<rparr>"
    by simp
  from retry_delay_doubles [OF h, of default_config "Error ''Network Error''" accepting idle_service]
  have "timers (processOperation default_config
               \<lparr>op_id = ''op_1'', op_type = UPDATE, endpoint = ''/courses/42'', op_data = Some (7::nat),
                 op_timestamp = 1000, retries = 1, maxRetries = 3, priority = Medium\<rparr>
               (Some (Error ''Network Error'')) accepting idle_service)
       = timers (idle_service :: nat service) @ [(retryDelay default_config * 2 ^ 1, ''op_1'')]"
    by simp
  then show ?thesis
    using h by (simp add: default_config_def idle_service_def)
qed

lemma getSyncQueue_ok: "queue_io_ok e \<Longrightarrow> getSyncQueue e st = (persisted_queue st, st)"
  by (simp add: queue_io_ok_def getSyncQueue_def retrieve_def persisted_queue_def split: option.splits)

lemma same_store: "sv\<lparr>queueStore := queueStore sv\<rparr> = sv" for sv :: "'a service"
  by (cases sv) simp

lemma find_bumpRetries:
  "find (\<lambda>op. op_id op = i) (bumpRetries i q)
     = map_option (\<lambda>op. op\<lparr>retries := retries op + 1\<rparr>) (find (\<lambda>op. op_id op = i) q)"
  by (induction q) simp_all

lemma find_op_id: "find (\<lambda>op. op_id op = i) q = Some operation \<Longrightarrow> op_id operation = i"
  by (induction q) (auto split: if_splits)

lemma bumpRetries_absent: "find (\<lambda>op. op_id op = i) q = None \<Longrightarrow> bumpRetries i q = q"
  by (induction q) (auto split: if_splits)

lemma persisted_increment_ok:
  assumes "queue_io_ok e"
  shows "persisted_queue (incrementRetryCount i e st) = bumpRetries i (persisted_queue st)"
proof (cases "find (\<lambda>op. op_id op = i) (persisted_queue st)")
  case None
  with assms bumpRetries_absent [OF None] show ?thesis
    by (simp add: incrementRetryCount_def getSyncQueue_ok)
next
  case (Some operation)
  obtain r st2 where s: "store SYNC_QUEUE (bumpRetries i (persisted_queue st)) 1 e st = (r, st2)"
    by (cases "store SYNC_QUEUE (bumpRetries i (persisted_queue st)) 1 e st")
  then have st2: "persisted_queue st2 = bumpRetries i (persisted_queue st)"
    using persisted_store [of "bumpRetries i (persisted_queue st)" 1 e st] assms
    by (simp add: queue_io_ok_def)
  have "persisted_queue (incrementRetryCount i e st) = persisted_queue st2"
    using s Some assms by (cases r) (simp_all add: incrementRetryCount_def getSyncQueue_ok)
  with st2 show ?thesis by simp
qed

lemma retryOperation_found:
  assumes "queue_io_ok e" and "find_op i sv = Some operation"
  shows "retryOperation cfg i outcome e sv = processOperation cfg operation outcome e sv"
  using assms(2)
  by (simp only: retryOperation_def getSyncQueue_ok [OF assms(1)] Let_def prod.case same_store
        find_op_def option.case)

lemma retryOperation_absent:
  assumes "queue_io_ok e" and "find_op i sv = None"
  shows "retryOperation cfg i outcome e sv = sv"
  using assms(2)
  by (simp only: retryOperation_def getSyncQueue_ok [OF assms(1)] Let_def prod.case same_store
        find_op_def option.case)

lemma timers_processOperation_failed:
  "timers (processOperation cfg operation (Some err) e sv) =
     (if retries operation < maxRetries operation
      then timers sv @ [(calculateRetryDelay cfg (retries operation), op_id operation)]
      else timers sv)"
  by (simp add: processOperation_def Let_def handlePermanentFailure_def)

lemma persisted_processOperation_failed:
  assumes "queue_io_ok e"
  shows "persisted_queue (queueStore (processOperation cfg operation (Some err) e sv)) =
     (if retries operation < maxRetries operation
      then bumpRetries (op_id operation) (persisted_queue (queueStore sv))
      else persisted_queue (queueStore sv))"
proof (cases "retries operation < maxRetries operation")
  case True
  then show ?thesis
    by (simp add: processOperation_def Let_def persisted_increment_ok [OF assms] svlog_def)
next
  case False
  then show ?thesis
    by (simp add: processOperation_def Let_def handlePermanentFailure_def)
qed

lemma retry_persisted:
  assumes "queue_io_ok e"
  shows "persisted_queue (queueStore (retryOperation cfg i (Some err) e sv)) =
     (case find_op i sv of
        None \<Rightarrow> persisted_queue (queueStore sv)
      | Some operation \<Rightarrow>
          if retries operation < maxRetries operation
          then bumpRetries i (persisted_queue (queueStore sv))
          else persisted_queue (queueStore sv))"
proof (cases "find_op i sv")
  case None
  show ?thesis
    by (simp only: retryOperation_absent [OF assms None] None option.case)
next
  case (Some operation)
  then have i: "op_id operation = i" unfolding find_op_def by (rule find_op_id)
  show ?thesis
    by (simp only: retryOperation_found [OF assms Some] persisted_processOperation_failed [OF assms]
          Some option.case i)
qed

lemma retry_timers:
  assumes "queue_io_ok e"
  shows "timers (retryOperation cfg i (Some err) e sv) =
     (case find_op i sv of
        None \<Rightarrow> timers sv
      | Some operation \<Rightarrow>
          if retries operation < maxRetries operation
          then timers sv @ [(calculateRetryDelay cfg (retries operation), i)]
          else timers sv)"
proof (cases "find_op i sv")
  case None
  show ?thesis
    by (simp only: retryOperation_absent [OF assms None] None option.case)
next
  case (Some operation)
  then have i: "op_id operation = i" unfolding find_op_def by (rule find_op_id)
  show ?thesis
    by (simp only: retryOperation_found [OF assms Some] timers_processOperation_failed
          Some option.case i)
qed

lemma failed_dispatches_Suc:
  "failed_dispatches cfg i err e (Suc n) sv = retryOperation cfg i (Some err) e (failed_dispatches cfg i err e n sv)"
  by (simp add: failed_dispatches_def)

lemma failed_run:
  assumes ok: "queue_io_ok e" and f: "find_op i sv = Some operation" and z: "retries operation = 0"
  shows "find_op i (failed_dispatches cfg i err e n sv)
           = Some (operation\<lparr>retries := min n (maxRetries operation)\<rparr>)
         \<and> timers (failed_dispatches cfg i err e n sv)
           = timers sv @ map (\<lambda>k. (calculateRetryDelay cfg k, i)) [0..<min n (maxRetries operation)]"
proof (induction n)
  case 0
  with f z show ?case by (simp add: failed_dispatches_def)
next
  case (Suc n)
  define sv' where "sv' = failed_dispatches cfg i err e n sv"
  define cur where "cur = operation\<lparr>retries := min n (maxRetries operation)\<rparr>"
  from Suc have cur: "find_op i sv' = Some cur"
    and tm: "timers sv' = timers sv @ map (\<lambda>k. (calculateRetryDelay cfg k, i)) [0..<min n (maxRetries operation)]"
    by (simp_all add: sv'_def cur_def)
  show ?case
  proof (cases "n < maxRetries operation")
    case True
    then have lt: "retries cur < maxRetries cur" and r: "retries cur = n" by (simp_all add: cur_def)
    have "find_op i (retryOperation cfg i (Some err) e sv') = Some (cur\<lparr>retries := retries cur + 1\<rparr>)"
      using cur lt retry_persisted [OF ok, of cfg i err sv']
      by (simp add: find_op_def find_bumpRetries)
    moreover have "timers (retryOperation cfg i (Some err) e sv') = timers sv' @ [(calculateRetryDelay cfg n, i)]"
      using cur lt r retry_timers [OF ok, of cfg i err sv'] by simp
    ultimately show ?thesis
      using True tm by (simp add: failed_dispatches_Suc sv'_def [symmetric] cur_def min_def)
  next
    case False
    then have ge: "\<not> retries cur < maxRetries cur" by (simp add: cur_def)
    have "find_op i (retryOperation cfg i (Some err) e sv') = Some cur"
      using cur ge retry_persisted [OF ok, of cfg i err sv']
      by (simp add: find_op_def)
    moreover have "timers (retryOperation cfg i (Some err) e sv') = timers sv'"
      using cur ge retry_timers [OF ok, of cfg i err sv'] by simp
    ultimately show ?thesis
      using False tm by (simp add: failed_dispatches_Suc sv'_def [symmetric] cur_def min_def)
  qed
qed

lemma failed_run_queue_fixed:
  assumes ok: "queue_io_ok e" and f: "find_op i sv = Some operation" and z: "retries operation = 0"
    and n: "maxRetries operation \<le> n"
  shows "persisted_queue (queueStore (failed_dispatches cfg i err e (Suc n) sv))
           = persisted_queue (queueStore (failed_dispatches cfg i err e n sv))"
proof -
  define cur where "cur = operation\<lparr>retries := maxRetries operation\<rparr>"
  have "min n (maxRetries operation) = maxRetries operation" using n by simp
  with failed_run [OF ok f z, of cfg err n]
  have cur: "find_op i (failed_dispatches cfg i err e n sv) = Some cur"
    by (simp only: cur_def)
  have ge: "\<not> retries cur < maxRetries cur" by (simp add: cur_def)
  show ?thesis
    by (simp only: failed_dispatches_Suc retry_persisted [OF ok] cur option.case ge if_False)
qed

lemma set_sortBy: "set (sortBy cmp xs) = set xs"
  by (induction xs) (simp_all add: sortBy_def set_insertBy)

lemma find_unique:
  "x \<in> set xs \<Longrightarrow> P x \<Longrightarrow> (\<forall>y\<in>set xs. P y \<longrightarrow> y = x) \<Longrightarrow> find P xs = Some x"
proof (induction xs)
  case Nil
  then show ?case by simp
next
  case (Cons a xs)
  show ?case
  proof (cases "P a")
    case True
    have "a \<in> set (a # xs)" by simp
    with Cons.prems(3) True have "a = x" by blast
    with True show ?thesis by simp
  next
    case False
    with Cons.prems(1,2) have mem: "x \<in> set xs" by auto
    have "\<forall>y\<in>set xs. P y \<longrightarrow> y = x" using Cons.prems(3) by simp
    with mem Cons.prems(2) have "find P xs = Some x" by (rule Cons.IH)
    with False show ?thesis by simp
  qed
qed

lemma persisted_enqueued:
  assumes ok: "queue_io_ok e"
  shows "persisted_queue (queueStore (enqueued operation i ts e sv)) =
    sortBy compareOps (persisted_queue (queueStore sv) @
     [\<lparr>op_id = i, op_type = in_type operation, endpoint = in_endpoint operation,
           op_data = in_data operation, op_timestamp = ts, retries = 0,
           maxRetries = MAX_RETRIES, priority = in_priority operation\<rparr>])"
proof -
  define syncOp :: "'a SyncOperation" where
    "syncOp = \<lparr>op_id = i, op_type = in_type operation, endpoint = in_endpoint operation,
           op_data = in_data operation, op_timestamp = ts, retries = 0,
           maxRetries = MAX_RETRIES, priority = in_priority operation\<rparr>"
  define q where "q = persisted_queue (queueStore sv)"
  obtain r st2 where s: "store SYNC_QUEUE (sortBy compareOps (q @ [syncOp])) 1 e (queueStore sv) = (r, st2)"
    by (cases "store SYNC_QUEUE (sortBy compareOps (q @ [syncOp])) 1 e (queueStore sv)")
  then have st2: "persisted_queue st2 = sortBy compareOps (q @ [syncOp])"
    using persisted_store [of "sortBy compareOps (q @ [syncOp])" 1 e "queueStore sv"] ok
    by (simp add: queue_io_ok_def)
  have "persisted_queue (queueStore (enqueued operation i ts e sv)) = persisted_queue st2"
    using s ok by (cases r) (simp_all add: enqueued_def addToSyncQueue_def getSyncQueue_ok q_def syncOp_def)
  with st2 show ?thesis by (simp add: q_def syncOp_def)
qed

lemma find_op_enqueued:
  assumes ok: "queue_io_ok e" and fresh: "i \<notin> op_id ` set (persisted_queue (queueStore sv))"
  shows "find_op i (enqueued operation i ts e sv) =
     Some \<lparr>op_id = i, op_type = in_type operation, endpoint = in_endpoint operation,
           op_data = in_data operation, op_timestamp = ts, retries = 0,
           maxRetries = MAX_RETRIES, priority = in_priority operation\<rparr>"
proof -
  define syncOp :: "'a SyncOperation" where
    "syncOp = \<lparr>op_id = i, op_type = in_type operation, endpoint = in_endpoint operation,
           op_data = in_data operation, op_timestamp = ts, retries = 0,
           maxRetries = MAX_RETRIES, priority = in_priority operation\<rparr>"
  define q where "q = persisted_queue (queueStore sv)"
  have i: "op_id syncOp = i" by (simp add: syncOp_def)
  have "\<forall>y\<in>set (q @ [syncOp]). op_id y = i \<longrightarrow> y = syncOp"
    using fresh by (auto simp: q_def)
  then have "find (\<lambda>op. op_id op = i) (sortBy compareOps (q @ [syncOp])) = Some syncOp"
    using i by (intro find_unique) (simp_all add: set_sortBy)
  then show ?thesis
    using persisted_enqueued [OF ok, of operation i ts sv]
    by (simp add: find_op_def syncOp_def q_def)
qed


lemma find_SomeD: "find P xs = Some x \<Longrightarrow> x \<in> set xs \<and> P x"
  by (induction xs) (auto split: if_splits)

lemma getFailedOperations_ok:
  "queue_io_ok e \<Longrightarrow>
     fst (getFailedOperations e st) = filter (\<lambda>op. retries op \<ge> maxRetries op) (persisted_queue st)"
  by (simp add: getFailedOperations_def getSyncQueue_ok)

lemma timers_enqueued [simp]: "timers (enqueued operation i ts e sv) = timers sv"
  by (simp add: enqueued_def)

text \<open>
  The retry chain on its own: an operation is enqueued with \<open>retries = 0\<close> and
  \<open>maxRetries = 3\<close>. When every dispatch of it is started by \<^verbatim>\<open>retryOperation\<close>, which reads
  the operation from the queue again, and fails (the storage accepting the reads and
  writes of the queue), its retry count after \<open>n\<close> failures is \<open>min n 3\<close>, only the first
  three failures schedule a retry, from the third failure on the operation is among
  \<^verbatim>\<open>getFailedOperations()\<close>, and it stays in the queue.
\<close>

lemma retry_chain_ceiling:
  assumes ok: "queue_io_ok e"
    and fresh: "i \<notin> op_id ` set (persisted_queue (queueStore sv))"
  shows "map_option (\<lambda>op. (retries op, maxRetries op)) (find_op i (enqueued operation i ts e sv)) = Some (0, 3)
    \<and> (\<forall>n. map_option retries
               (find_op i (failed_dispatches cfg i err e n (enqueued operation i ts e sv)))
               = Some (min n 3)
           \<and> timers (failed_dispatches cfg i err e n (enqueued operation i ts e sv))
               = timers sv @ map (\<lambda>k. (calculateRetryDelay cfg k, i)) [0..<min n 3]
           \<and> (3 \<le> n \<longrightarrow>
                i \<in> op_id ` set (fst (getFailedOperations e
                       (queueStore (failed_dispatches cfg i err e n (enqueued operation i ts e sv)))))))"
proof -
  define op0 :: "'a SyncOperation" where
    "op0 = \<lparr>op_id = i, op_type = in_type operation, endpoint = in_endpoint operation,
            op_data = in_data operation, op_timestamp = ts, retries = 0,
            maxRetries = MAX_RETRIES, priority = in_priority operation\<rparr>"
  define sv0 where "sv0 = enqueued operation i ts e sv"
  have f: "find_op i sv0 = Some op0"
    unfolding sv0_def op0_def by (rule find_op_enqueued [OF ok fresh])
  have z: "retries op0 = 0" and m: "maxRetries op0 = 3" and id0: "op_id op0 = i"
    by (simp_all add: op0_def MAX_RETRIES_def)
  have first: "map_option (\<lambda>op. (retries op, maxRetries op)) (find_op i sv0) = Some (0, 3)"
    by (simp add: f z m)
  have rest: "map_option retries (find_op i (failed_dispatches cfg i err e n sv0)) = Some (min n 3)
           \<and> timers (failed_dispatches cfg i err e n sv0)
               = timers sv @ map (\<lambda>k. (calculateRetryDelay cfg k, i)) [0..<min n 3]
           \<and> (3 \<le> n \<longrightarrow>
                i \<in> op_id ` set (fst (getFailedOperations e
                       (queueStore (failed_dispatches cfg i err e n sv0)))))" for n
  proof -
    define cur where "cur = op0\<lparr>retries := min n 3\<rparr>"
    from failed_run [OF ok f z, of cfg err n]
    have c: "find_op i (failed_dispatches cfg i err e n sv0) = Some cur"
      and t: "timers (failed_dispatches cfg i err e n sv0)
               = timers sv0 @ map (\<lambda>k. (calculateRetryDelay cfg k, i)) [0..<min n 3]"
      by (simp_all add: m cur_def)
    have r: "map_option retries (find_op i (failed_dispatches cfg i err e n sv0)) = Some (min n 3)"
      by (simp add: c cur_def)
    have mem: "cur \<in> set (persisted_queue (queueStore (failed_dispatches cfg i err e n sv0)))"
      using c find_SomeD unfolding find_op_def by fastforce
    have "i \<in> op_id ` set (fst (getFailedOperations e
                       (queueStore (failed_dispatches cfg i err e n sv0))))" if "3 \<le> n"
    proof -
      from that have "retries cur \<ge> maxRetries cur" and "op_id cur = i"
        by (simp_all add: cur_def m id0)
      with mem show ?thesis
        unfolding getFailedOperations_ok [OF ok] by force
    qed
    with r t show ?thesis by (simp add: sv0_def)
  qed
  from first rest show ?thesis unfolding sv0_def by blast
qed

lemma retry_chain_ceiling_example:
  "queue_io_ok accepting
   \<and> ''op_1'' \<notin> op_id ` set (persisted_queue (queueStore (idle_service :: nat service)))
   \<and> map_option retries
        (find_op ''op_1''
          (failed_dispatches default_config ''op_1'' (Error ''Network Error'') accepting 4
            (enqueued \<lparr>in_type = CREATE, in_endpoint = ''/courses/42'', in_data = Some 7,
                       in_priority = High\<rparr> ''op_1'' 1000 accepting (idle_service :: nat service))))
       = Some 3
   \<and> timers
          (failed_dispatches default_config ''op_1'' (Error ''Network Error'') accepting 4
            (enqueued \<lparr>in_type = CREATE, in_endpoint = ''/courses/42'', in_data = Some 7,
                       in_priority = High\<rparr> ''op_1'' 1000 accepting (idle_service :: nat service)))
       = [(5000, ''op_1''), (10000, ''op_1''), (20000, ''op_1'')]"
proof -
  have h1: "queue_io_ok accepting"
    by (simp add: queue_io_ok_def accepting_def)
  have h2: "''op_1'' \<notin> op_id ` set (persisted_queue (queueStore (idle_service :: nat service)))"
    by (simp add: persisted_queue_def idle_service_def empty_storage_def)
  have three: "[0..<min 4 3] = [0, 1, 2]" by (simp add: upt_rec)
  from retry_chain_ceiling [OF h1 h2, of "\<lparr>in_type = CREATE, in_endpoint = ''/courses/42'', in_data = Some 7,
                       in_priority = High\<rparr>" 1000 default_config "Error ''Network Error''"]
  have "map_option retries
        (find_op ''op_1''
          (failed_dispatches default_config ''op_1'' (Error ''Network Error'') accepting 4
            (enqueued \<lparr>in_type = CREATE, in_endpoint = ''/courses/42'', in_data = Some 7,
                       in_priority = High\<rparr> ''op_1'' 1000 accepting (idle_service :: nat service))))
       = Some (min 4 3)"
    and "timers
          (failed_dispatches default_config ''op_1'' (Error ''Network Error'') accepting 4
            (enqueued \<lparr>in_type = CREATE, in_endpoint = ''/courses/42'', in_data = Some 7,
                       in_priority = High\<rparr> ''op_1'' 1000 accepting (idle_service :: nat service)))
       = timers (idle_service :: nat service)
           @ map (\<lambda>k. (calculateRetryDelay default_config k, ''op_1'')) [0..<min 4 3]"
    by blast+
  then show ?thesis
    using h1 h2 three
    by (simp add: calculateRetryDelay_def default_config_def idle_service_def)
qed


text \<open>
  Claim C3. The ceiling does not hold for a dispatch that holds an older copy of the
  operation: \<^verbatim>\<open>processOperation\<close> tests \<^verbatim>\<open>operation.retries < operation.maxRetries\<close> on the
  object its caller loaded, while \<^verbatim>\<open>incrementRetryCount\<close> counts up the persisted one. After
  two failures a sync pass loads the queue and holds the operation with \<open>retries = 2\<close>;
  the retry timer then dispatches the operation, which fails a third time (persisted
  count 3); the pass then dispatches its copy, which fails too: this fourth failure
  takes the persisted count to 4, past \<open>maxRetries = 3\<close>, and schedules one more retry.
\<close>

theorem stale_copy_exceeds_ceiling:
  "find_op ''op_1'' after_two_failures = Some held_copy
   \<and> map_option retries
        (find_op ''op_1''
          (retryOperation default_config ''op_1'' (Some (Error ''Network Error'')) accepting
             after_two_failures)) = Some 3
   \<and> map_option retries
        (find_op ''op_1''
          (processOperation default_config held_copy (Some (Error ''Network Error'')) accepting
            (retryOperation default_config ''op_1'' (Some (Error ''Network Error'')) accepting
               after_two_failures))) = Some 4
   \<and> timers
          (processOperation default_config held_copy (Some (Error ''Network Error'')) accepting
            (retryOperation default_config ''op_1'' (Some (Error ''Network Error'')) accepting
               after_two_failures))
       = [(5000, ''op_1''), (10000, ''op_1''), (20000, ''op_1''), (20000, ''op_1'')]"
proof -
  define err where "err = Error ''Network Error''"
  define sv0 :: "nat service" where "sv0 = enqueued sample_input ''op_1'' 1000 accepting idle_service"
  have ok: "queue_io_ok accepting"
    by (simp add: queue_io_ok_def accepting_def)
  have fresh: "''op_1'' \<notin> op_id ` set (persisted_queue (queueStore (idle_service :: nat service)))"
    by (simp add: persisted_queue_def idle_service_def empty_storage_def)
  have f0: "find_op ''op_1'' sv0 = Some sample_op"
    using find_op_enqueued [OF ok fresh, of sample_input 1000]
    by (simp add: sv0_def sample_input_def sample_op_def MAX_RETRIES_def)
  have z: "retries sample_op = 0" and m: "maxRetries sample_op = 3"
    by (simp_all add: sample_op_def)
  have t0: "timers sv0 = []" by (simp add: sv0_def idle_service_def)
  have two: "find_op ''op_1'' (failed_dispatches default_config ''op_1'' err accepting 2 sv0) = Some held_copy"
    and t2: "timers (failed_dispatches default_config ''op_1'' err accepting 2 sv0)
               = [(5000, ''op_1''), (10000, ''op_1'')]"
    using failed_run [OF ok f0 z, of default_config err 2] t0
    by (simp_all add: m held_copy_def upt_rec calculateRetryDelay_def default_config_def)
  define sv3 where "sv3 = failed_dispatches default_config ''op_1'' err accepting 3 sv0"
  have three: "find_op ''op_1'' sv3 = Some (sample_op\<lparr>retries := 3\<rparr>)"
    and t3: "timers sv3 = [(5000, ''op_1''), (10000, ''op_1''), (20000, ''op_1'')]"
    using failed_run [OF ok f0 z, of default_config err 3] t0
    by (simp_all add: sv3_def m upt_rec calculateRetryDelay_def default_config_def)
  have sv3': "retryOperation default_config ''op_1'' (Some err) accepting
                (failed_dispatches default_config ''op_1'' err accepting 2 sv0) = sv3"
    by (simp add: sv3_def failed_dispatches_def numeral_3_eq_3 numeral_2_eq_2)
  have held: "retries held_copy < maxRetries held_copy" and hid: "op_id held_copy = ''op_1''"
    by (simp_all add: held_copy_def sample_op_def)
  have "find_op ''op_1'' (processOperation default_config held_copy (Some err) accepting sv3)
          = map_option (\<lambda>op. op\<lparr>retries := retries op + 1\<rparr>) (find_op ''op_1'' sv3)"
    using held hid persisted_processOperation_failed [OF ok, of default_config held_copy err sv3]
    by (simp add: find_op_def find_bumpRetries)
  then have four: "map_option retries
      (find_op ''op_1'' (processOperation default_config held_copy (Some err) accepting sv3)) = Some 4"
    by (simp add: three)
  have t4: "timers (processOperation default_config held_copy (Some err) accepting sv3)
              = [(5000, ''op_1''), (10000, ''op_1''), (20000, ''op_1''), (20000, ''op_1'')]"
    using held hid t3
    by (simp add: timers_processOperation_failed calculateRetryDelay_def default_config_def held_copy_def)
  from two three four t4 show ?thesis
    unfolding after_two_failures_def sv0_def [symmetric] err_def [symmetric] sv3' by simp
qed


subsection \<open>Best-effort removal\<close>

text \<open>
  Claim C6, as the code has it. \<^verbatim>\<open>remove(key)\<close> throws exactly when
  \<^verbatim>\<open>AsyncStorage.removeItem(key)\<close> rejects, and \<^verbatim>\<open>clearAll()\<close> exactly when
  \<^verbatim>\<open>AsyncStorage.clear()\<close> rejects: each logs the failure at error level and throws the same
  error again to its caller. Each completes normally, with an info line in the log, only
  when its AsyncStorage call is accepted.
\<close>

theorem remove_clearAll_rethrow:
  "fst (remove key e st)
     = (case rejects e (RemoveItem key) of None \<Rightarrow> Inr () | Some err \<Rightarrow> Inl err)
   \<and> logs (snd (remove key e st))
     = logs st @ [case rejects e (RemoveItem key) of
                    None \<Rightarrow> (LInfo, ''Removed data for key: '' @ key)
                  | Some err \<Rightarrow> (LError, ''Error removing data for key '' @ key @ '':'')]
   \<and> fst (clearAll e st)
     = (case rejects e Clear of None \<Rightarrow> Inr () | Some err \<Rightarrow> Inl err)
   \<and> logs (snd (clearAll e st))
     = logs st @ [case rejects e Clear of
                    None \<Rightarrow> (LInfo, ''Cleared all local storage'')
                  | Some err \<Rightarrow> (LError, ''Error clearing local storage:'')]"
  by (cases "rejects e (RemoveItem key)"; cases "rejects e Clear")
     (simp_all add: remove_def clearAll_def logger_def)

theorem remove_clearAll_rethrow_witness:
  "fst (remove ''courses'' (rejecting_only (RemoveItem ''courses'') (Error ''disk full''))
          (empty_storage :: nat storage))
     = Inl (Error ''disk full'')
   \<and> logs (snd (remove ''courses'' (rejecting_only (RemoveItem ''courses'') (Error ''disk full''))
                  (empty_storage :: nat storage)))
     = [(LError, ''Error removing data for key courses:'')]
   \<and> fst (clearAll (rejecting_only (RemoveItem ''courses'') (Error ''disk full''))
          (empty_storage :: nat storage))
     = Inr ()
   \<and> fst (clearAll (rejecting_only Clear (Error ''disk full'')) (empty_storage :: nat storage))
     = Inl (Error ''disk full'')
   \<and> logs (snd (clearAll (rejecting_only Clear (Error ''disk full'')) (empty_storage :: nat storage)))
     = [(LError, ''Error clearing local storage:'')]
   \<and> fst (remove ''courses'' (rejecting_only Clear (Error ''disk full'')) (empty_storage :: nat storage))
     = Inr ()"
  using remove_clearAll_rethrow [of "''courses''" "rejecting_only (RemoveItem ''courses'') (Error ''disk full'')"
          "empty_storage :: nat storage"]
        remove_clearAll_rethrow [of "''courses''" "rejecting_only Clear (Error ''disk full'')"
          "empty_storage :: nat storage"]
  by (simp add: rejecting_only_def empty_storage_def)

text \<open>
  The claim as the specification states it fails: with a rejecting AsyncStorage neither call
  completes normally.
\<close>

theorem remove_clearAll_counterexample:
  "fst (remove ''courses'' (rejecting (Error ''disk full'')) (empty_storage :: nat storage))
     \<noteq> Inr ()
   \<and> fst (clearAll (rejecting (Error ''disk full'')) (empty_storage :: nat storage)) \<noteq> Inr ()"
  by (simp add: remove_def clearAll_def rejecting_def)

subsection \<open>Conflict resolution\<close>

lemma indexOf_from_range: "indexOf_from eq k xs x = - 1 \<or> int k \<le> indexOf_from eq k xs x"
proof (induction xs arbitrary: k)
  case Nil
  show ?case by simp
next
  case (Cons y ys)
  from Cons [of "Suc k"] show ?case by auto
qed

lemma indexOf_from_iff:
  "indexOf_from (=) k xs x = int (k + j) \<longleftrightarrow> j < length xs \<and> xs ! j = x \<and> x \<notin> set (take j xs)"
proof (induction xs arbitrary: k j)
  case Nil
  show ?case by simp
next
  case (Cons y ys)
  show ?case
  proof (cases "y = x")
    case True
    then show ?thesis by (cases j) simp_all
  next
    case False
    show ?thesis
    proof (cases j)
      case 0
      with False indexOf_from_range [of "(=)" "Suc k" ys x] show ?thesis by auto
    next
      case (Suc j')
      with False Cons [of "Suc k" j'] show ?thesis by simp
    qed
  qed
qed

lemma strict_eq_plain: "plain x \<Longrightarrow> plain y \<Longrightarrow> strict_eq x y = (x = y)"
proof (cases "\<exists>a b. x = Prim (Num a) \<and> y = Prim (Num b)")
  case True
  then obtain a b where x: "x = Prim (Num a)" and y: "y = Prim (Num b)" by blast
  assume "plain x" and "plain y"
  with x y have "a \<noteq> NaN" "a \<noteq> NegZero" "b \<noteq> NaN" "b \<noteq> NegZero"
    by (simp_all add: plain_def)
  then have "strict_eq_number a b = (a = b)"
    by (cases a; cases b) simp_all
  with x y show ?thesis by simp
next
  case False
  then show ?thesis
    by (cases "(x, y)" rule: strict_eq.cases) auto
qed

lemma indexOf_from_plain:
  "list_all plain xs \<Longrightarrow> plain x \<Longrightarrow> indexOf_from strict_eq k xs x = indexOf_from (=) k xs x"
  by (induction xs arbitrary: k) (simp_all add: strict_eq_plain)

lemma indexOf_first:
  assumes "list_all plain xs" and "i < length xs"
  shows "indexOf xs (xs ! i) = int i \<longleftrightarrow> xs ! i \<notin> set (take i xs)"
proof -
  from assms have "plain (xs ! i)" by (simp add: list_all_length)
  with assms show ?thesis
    using indexOf_from_iff [of 0 xs "xs ! i" i]
    by (simp add: indexOf_def indexOf_from_plain)
qed

lemma zip_indices: "zip xs [0..<length xs] = map (\<lambda>i. (xs ! i, i)) [0..<length xs]"
  by (intro nth_equalityI) simp_all

lemma filter_indexed_nth:
  "filter_indexed p xs = map (nth xs) (filter (\<lambda>i. p (xs ! i) i) [0..<length xs])"
  by (simp add: filter_indexed_def zip_indices filter_map comp_def)

lemma first_occurrences_nth:
  assumes "list_all plain xs"
  shows "first_occurrences xs
           = map (nth xs) (filter (\<lambda>i. xs ! i \<notin> set (take i xs)) [0..<length xs])"
proof -
  have "filter (\<lambda>i. indexOf xs (xs ! i) = int i) [0..<length xs]
      = filter (\<lambda>i. xs ! i \<notin> set (take i xs)) [0..<length xs]"
    by (rule filter_cong) (simp_all add: indexOf_first [OF assms])
  then show ?thesis by (simp add: first_occurrences_def filter_indexed_nth)
qed

lemma distinct_first_occurrences:
  assumes "list_all plain xs"
  shows "distinct (first_occurrences xs)"
proof -
  have "inj_on (nth xs) {i. i < length xs \<and> xs ! i \<notin> set (take i xs)}"
  proof (rule inj_onI)
    fix i j
    assume i: "i \<in> {i. i < length xs \<and> xs ! i \<notin> set (take i xs)}"
      and j: "j \<in> {i. i < length xs \<and> xs ! i \<notin> set (take i xs)}"
      and eq: "xs ! i = xs ! j"
    have earlier: "a < b \<Longrightarrow> b < length xs \<Longrightarrow> xs ! a \<in> set (take b xs)" for a b
      by (metis in_set_conv_nth length_take min_less_iff_conj nth_take order_less_trans)
    show "i = j"
    proof (rule ccontr)
      assume "i \<noteq> j"
      then consider "i < j" | "j < i" by linarith
      then show False
      proof cases
        case 1
        with j earlier [of i j] eq show False by simp
      next
        case 2
        with i earlier [of j i] eq show False by simp
      qed
    qed
  qed
  then show ?thesis
    by (simp add: first_occurrences_nth [OF assms] distinct_map)
qed

lemma set_first_occurrences:
  assumes "list_all plain xs"
  shows "set (first_occurrences xs) = set xs"
proof
  show "set (first_occurrences xs) \<subseteq> set xs"
    by (auto simp: first_occurrences_nth [OF assms])
next
  show "set xs \<subseteq> set (first_occurrences xs)"
  proof
    fix x assume "x \<in> set xs"
    then obtain ys zs where s: "xs = ys @ x # zs" and n: "x \<notin> set ys"
      by (meson split_list_first)
    then have "length ys < length xs" and "xs ! length ys = x" and "take (length ys) xs = ys"
      by simp_all
    with n show "x \<in> set (first_occurrences xs)"
      by (auto simp: first_occurrences_nth [OF assms] image_iff intro!: bexI [of _ "length ys"])
  qed
qed

lemma mergeData_arrays: "mergeData (Array xs) (Array ys) = Array (first_occurrences (xs @ ys))"
  by (simp add: mergeData_def first_occurrences_def Let_def)

lemma mergeData_objects: "mergeData (Object m) (Object m') = Object (m' ++ m)"
  by (simp add: mergeData_def)

text \<open>
  What holds of \<^verbatim>\<open>resolveConflicts\<close>: the server data under \<^verbatim>\<open>'serverWins'\<close>, the local data
  under \<^verbatim>\<open>'clientWins'\<close>; under \<^verbatim>\<open>'merge'\<close>, for two arrays that hold neither NaN nor negative
  zero, an array without duplicates whose elements are those of the two ([1,2] and [2,3]
  give [1,2,3]), and for two plain objects the object with the properties of both in which
  the local value wins for a key both have (local {a:1} and server {a:2} give {a:1}).
\<close>

lemma resolveConflicts_strategies:
  "fst (resolveConflicts localData serverData serverWins e sv) = Resolved serverData
   \<and> fst (resolveConflicts localData serverData clientWins e sv) = Resolved localData
   \<and> (list_all plain (xs @ ys) \<longrightarrow>
        (\<exists>zs. fst (resolveConflicts (Array xs) (Array ys) merge e sv) = Resolved (Array zs)
           \<and> distinct zs \<and> set zs = set xs \<union> set ys))
   \<and> fst (resolveConflicts (Array [Prim (Num (Finite 1)), Prim (Num (Finite 2))])
            (Array [Prim (Num (Finite 2)), Prim (Num (Finite 3))]) merge e sv)
       = Resolved (Array [Prim (Num (Finite 1)), Prim (Num (Finite 2)), Prim (Num (Finite 3))])
   \<and> fst (resolveConflicts (Object m) (Object m') merge e sv) = Resolved (Object (m' ++ m))
   \<and> fst (resolveConflicts (Object [''a'' \<mapsto> Prim (Num (Finite 1))])
            (Object [''a'' \<mapsto> Prim (Num (Finite 2))]) merge e sv)
       = Resolved (Object [''a'' \<mapsto> Prim (Num (Finite 1))])"
proof (intro conjI impI)
  assume p: "list_all plain (xs @ ys)"
  show "\<exists>zs. fst (resolveConflicts (Array xs) (Array ys) merge e sv) = Resolved (Array zs)
           \<and> distinct zs \<and> set zs = set xs \<union> set ys"
    using distinct_first_occurrences [OF p] set_first_occurrences [OF p]
    by (simp add: resolveConflicts_def mergeData_arrays)
next
  show "fst (resolveConflicts (Array [Prim (Num (Finite 1)), Prim (Num (Finite 2))])
            (Array [Prim (Num (Finite 2)), Prim (Num (Finite 3))]) merge e sv)
       = Resolved (Array [Prim (Num (Finite 1)), Prim (Num (Finite 2)), Prim (Num (Finite 3))])"
    by (simp add: resolveConflicts_def mergeData_def filter_indexed_def indexOf_def Let_def)
qed (simp_all add: resolveConflicts_def mergeData_objects)

text \<open>
  Claim C5. Under \<^verbatim>\<open>'merge'\<close> the two arrays [NaN, 1] and [NaN] give [1]: the filter keeps an
  item where \<^verbatim>\<open>indexOf\<close> finds it, \<^verbatim>\<open>indexOf\<close> compares with \<^verbatim>\<open>===\<close>, and NaN is never found.
  Every NaN is dropped, so the result is not the union of the two arrays.
\<close>

theorem merge_drops_NaN:
  "fst (resolveConflicts (Array [Prim (Num NaN), Prim (Num (Finite 1))]) (Array [Prim (Num NaN)])
          merge e sv)
     = Resolved (Array [Prim (Num (Finite 1))])"
  by (simp add: resolveConflicts_def mergeData_def filter_indexed_def indexOf_def Let_def)

subsection \<open>Re-entrancy of the sync pass\<close>

lemma createBatches_single: "0 < b \<Longrightarrow> createBatches [x] (int b) = Some [[x]]"
proof -
  assume b: "0 < b"
  have "chunks b [x] = [x] # chunks b []" using b by (subst chunks.simps) simp
  also have "chunks b ([] :: 'a list) = []" by (subst chunks.simps) simp
  finally show ?thesis using createBatches_chunks [OF b, of "[x]"] by simp
qed

lemma guard_when_syncing:
  "isSyncing d \<Longrightarrow> run_turn cfg d Call = d\<lparr>passes := passes d @ [Returned]\<rparr>"
  by simp

text \<open>
  Claim C7. Two calls of \<^verbatim>\<open>manualSync\<close> in a row, on a driver with one queued operation and
  with connectivity: the first call is suspended at \<^verbatim>\<open>await this.checkConnectivity()\<close> when
  the second one reads \<^verbatim>\<open>isSyncing\<close>, which is still false, since the flag is set only after
  that \<^verbatim>\<open>await\<close>. Both passes go on, both start the remote call of the operation, and two
  passes are in flight at once.
\<close>

theorem two_manual_syncs_both_dispatch:
  "remoteCalls (foldl (run_turn default_config) idle_driver
       [Call, Call, ConnectivityResolved 0 True, ConnectivityResolved 1 True,
        QueueLoaded 0 [sample_op], QueueLoaded 1 [sample_op]])
     = [sample_op, sample_op]
   \<and> in_flight (foldl (run_turn default_config) idle_driver
       [Call, Call, ConnectivityResolved 0 True, ConnectivityResolved 1 True,
        QueueLoaded 0 [sample_op], QueueLoaded 1 [sample_op]]) = 2"
proof -
  have cb: "createBatches [sample_op] (batchSize default_config) = Some [[sample_op]]"
    using createBatches_single [of 10 sample_op] by (simp add: default_config_def)
  have pd: "processBatch_dispatched default_config [sample_op] = [sample_op]"
    by (simp add: processBatch_dispatched_def slice_prefix default_config_def)
  show ?thesis
    by (simp add: idle_driver_def cb pd dispatch_batches_def in_flight_def)
qed


subsection \<open>The offline data cache\<close>

lemma map_of_insert_indexed:
  "map_of obj k = None \<Longrightarrow> map_of (insert_indexed n k v obj) = (map_of obj)(k \<mapsto> v)"
proof (induction obj)
  case Nil
  show ?case by simp
next
  case (Cons p obj)
  obtain k' v' where p: "p = (k', v')" by (cases p)
  with Cons.prems have ne: "k' \<noteq> k" and rest: "map_of obj k = None"
    by (auto split: if_splits)
  from Cons.IH [OF rest] ne p show ?case
    by (auto simp: fun_upd_twist split: option.splits)
qed

lemma map_of_replace:
  "map_of (map (\<lambda>(k', v'). if k' = k then (k', v) else (k', v')) obj) =
     (\<lambda>x. if x = k then map_option (\<lambda>_. v) (map_of obj k) else map_of obj x)"
  by (induction obj) (auto simp: fun_eq_iff)

lemma map_of_set_property: "map_of (set_property obj k v) = (map_of obj)(k \<mapsto> v)"
proof (cases "map_of obj k")
  case None
  then show ?thesis
    by (cases "array_index k")
       (auto simp: set_property_def map_of_insert_indexed fun_eq_iff map_add_def split: option.splits)
next
  case (Some old)
  then show ?thesis
    by (simp add: set_property_def map_of_replace fun_eq_iff)
qed


lemma get_property_set [simp]: "get_property (set_property d k v) k = Some v"
  by (simp add: get_property_def map_of_set_property)

lemma saveData_accepted:
  "rejects (io e) (SetItem dataType) = None \<Longrightarrow>
     fst (saveData dataType newData e w) = Inr ()
     \<and> st_data (snd (saveData dataType newData e w)) = newData
     \<and> stored_dict dataType (snd (saveData dataType newData e w)) = Some newData
     \<and> syncStore (snd (saveData dataType newData e w)) = syncStore w
     \<and> st_isSyncing (snd (saveData dataType newData e w)) = st_isSyncing w"
  by (simp add: saveData_def store_def stored_dict_def logger_def)


lemma enqueue_result:
  "fst (enqueue operation e w)
     = (case rejects (io e) (SetItem SYNC_QUEUE) of None \<Rightarrow> Inr (nextOperationId e) | Some err \<Rightarrow> Inl err)"
proof -
  obtain r q where a: "addToSyncQueue operation (nextOperationId e) (operationTime e) (io e) (syncStore w) = (r, q)"
    by (cases "addToSyncQueue operation (nextOperationId e) (operationTime e) (io e) (syncStore w)")
  with add_returns [of operation "nextOperationId e" "operationTime e" "io e" "syncStore w"]
  have "r = (case rejects (io e) (SetItem SYNC_QUEUE) of None \<Rightarrow> Inr (nextOperationId e) | Some err \<Rightarrow> Inl err)"
    by simp
  with a show ?thesis by (simp add: enqueue_def)
qed







lemma syncAll_calls_prefix:
  "syncAll_calls d = map Some (take (length (getItemsByStatus d Pending)) (map fst d))"
proof -
  have "length (getItemsByStatus d Pending) \<le> length d"
    using length_filter_le [of "\<lambda>item. status item = Some Pending" "map snd d"]
    by (simp add: getItemsByStatus_def)
  then show ?thesis
    by (intro nth_equalityI) (simp_all add: syncAll_calls_def Let_def)
qed

text \<open>
  Claim C2. With the dictionary \<open>{a: synced, b: pending}\<close>, \<^verbatim>\<open>syncAll\<close> calls \<^verbatim>\<open>syncItem('a')\<close>, the
  item that is synced, and makes no call for \<open>b\<close>, the one item that is pending: the index
  of an item among the pending ones is used as an index into the keys of the whole
  dictionary.
\<close>

theorem syncAll_syncs_first_keys:
  "pending_ids two_items = [''b'']
   \<and> map (\<lambda>(k, item). (k, status item)) two_items = [(''a'', Some Synced), (''b'', Some Pending)]
   \<and> syncAll_calls two_items = [Some ''a'']"
  by (simp add: two_items_def synced_item_def pending_item_def pending_ids_def
        syncAll_calls_def getItemsByStatus_def)




lemma absent_id_noop:
  assumes "get_property (st_data w) ident = None"
  shows "markAsSynced dataType ident e w = (Inr (), w)
       \<and> syncItem dataType ident e w = (Inr (), w)
       \<and> resolveConflict dataType ident resolvedData strategy e w = (Inr (), w)"
  using assms by (simp add: markAsSynced_def syncItem_def resolveConflict_def)

lemma enqueue_store:
  "syncStore (snd (enqueue operation e w))
     = snd (addToSyncQueue operation (nextOperationId e) (operationTime e) (io e) (syncStore w))"
  by (simp add: enqueue_def split: prod.splits)

text \<open>
  Claim C10. The id \<^verbatim>\<open>'constructor'\<close> is not in the empty dictionary, yet \<^verbatim>\<open>data['constructor']\<close>
  is the function the dictionary inherits from \<^verbatim>\<open>Object.prototype\<close>, which passes the
  \<^verbatim>\<open>if (!item) return\<close> of all three callbacks: \<^verbatim>\<open>markAsSynced\<close> and \<^verbatim>\<open>resolveConflict\<close> persist
  a dictionary with an entry under that id, and \<^verbatim>\<open>syncItem\<close> puts an operation into the sync
  queue.
\<close>

theorem inherited_id_is_processed:
  "map_of (st_data (hook_with ([] :: nat dict))) ''constructor'' = None
   \<and> stored_dict ''courses''
        (snd (markAsSynced ''courses'' ''constructor'' (online accepting) (hook_with ([] :: nat dict))))
       = Some [(''constructor'', inherited\<lparr>status := Some Synced, syncAttempts := Some 0\<rparr>)]
   \<and> map endpoint (persisted_queue (syncStore
        (snd (syncItem ''courses'' ''constructor'' (online accepting) (hook_with ([] :: nat dict))))))
       = [''/courses/constructor'']
   \<and> stored_dict ''courses''
        (snd (resolveConflict ''courses'' ''constructor'' 5 serverWins (online accepting)
               (hook_with ([] :: nat dict))))
       = Some [(''constructor'', inherited\<lparr>item_data := Some 5, status := Some Pending,
                                             lastModified := Some 0, syncAttempts := Some 0\<rparr>)]"
proof -
  define e where "e = online accepting"
  define w :: "nat hook" where "w = hook_with []"
  have d: "st_data w = []" by (simp add: w_def hook_with_def)
  have g: "get_property (st_data w) ''constructor'' = Some inherited"
    by (simp add: d get_property_def object_prototype_keys_def)
  have sp: "set_property (st_data w) ''constructor'' v = [(''constructor'', v)]" for v
    by (simp add: d set_property_def array_index_def is_digit_def)
  have acc: "rejects (io e) (SetItem ''courses'') = None"
    and accq: "rejects (io e) (SetItem SYNC_QUEUE) = None"
    and accr: "rejects (io e) (GetItem SYNC_QUEUE) = None"
    and n: "now (io e) = 0" and nid: "nextOperationId e = ''op_1''"
    by (simp_all add: e_def online_def accepting_def)
  have m: "stored_dict ''courses'' (snd (markAsSynced ''courses'' ''constructor'' e w))
       = Some [(''constructor'', inherited\<lparr>status := Some Synced, syncAttempts := Some 0\<rparr>)]"
    using saveData_accepted [OF acc,
            of "[(''constructor'', inherited\<lparr>status := Some Synced, syncAttempts := Some 0, errorMessage := None\<rparr>)]" w]
    by (simp add: markAsSynced_def g sp) (simp add: inherited_def)
  obtain r0 w0 where sv0: "saveData ''courses''
      [(''constructor'', inherited\<lparr>item_data := Some 5, status := Some Pending,
          lastModified := Some 0, syncAttempts := Some 0, errorMessage := None\<rparr>)] e w = (r0, w0)"
    by (cases "saveData ''courses''
      [(''constructor'', inherited\<lparr>item_data := Some 5, status := Some Pending,
          lastModified := Some 0, syncAttempts := Some 0, errorMessage := None\<rparr>)] e w")
  with saveData_accepted [OF acc,
            of "[(''constructor'', inherited\<lparr>item_data := Some 5, status := Some Pending,
                      lastModified := Some 0, syncAttempts := Some 0, errorMessage := None\<rparr>)]" w]
  have r0: "r0 = Inr ()" and p0: "stored_dict ''courses'' w0 =
      Some [(''constructor'', inherited\<lparr>item_data := Some 5, status := Some Pending,
          lastModified := Some 0, syncAttempts := Some 0, errorMessage := None\<rparr>)]"
    by simp_all
  have "resolveConflict ''courses'' ''constructor'' 5 serverWins e w = (Inr (), w0)"
    using sv0 r0 by (simp add: resolveConflict_def g sp n)
  with p0 have r: "stored_dict ''courses''
        (snd (resolveConflict ''courses'' ''constructor'' 5 serverWins e w))
       = Some [(''constructor'', inherited\<lparr>item_data := Some 5, status := Some Pending,
                                             lastModified := Some 0, syncAttempts := Some 0\<rparr>)]"
    by (simp add: inherited_def)
  define operation :: "nat SyncOperationInput" where
    "operation = \<lparr>in_type = UPDATE, in_endpoint = ''/courses/constructor'',
                   in_data = None, in_priority = High\<rparr>"
  obtain r1 w1 where en: "enqueue operation e (w\<lparr>st_isSyncing := True\<rparr>) = (r1, w1)"
    by (cases "enqueue operation e (w\<lparr>st_isSyncing := True\<rparr>)")
  with enqueue_result [of operation e "w\<lparr>st_isSyncing := True\<rparr>"] accq nid
  have r1: "r1 = Inr ''op_1''" by simp
  have q1: "persisted_queue (syncStore w1) =
      sortBy compareOps (fst (getSyncQueue (io e) (syncStore w)) @
         [\<lparr>op_id = ''op_1'', op_type = UPDATE, endpoint = ''/courses/constructor'',
           op_data = None, op_timestamp = operationTime e, retries = 0, maxRetries = 3,
           priority = High\<rparr>])"
    using enqueue_store [of operation e "w\<lparr>st_isSyncing := True\<rparr>"] en accq nid
      add_persists [of operation "''op_1''" "operationTime e" "io e" "syncStore w"]
    by (simp add: operation_def)
  have "fst (getSyncQueue (io e) (syncStore w)) = []"
    by (simp add: getSyncQueue_value persisted_queue_def w_def hook_with_def empty_storage_def)
  with q1 have q1': "map endpoint (persisted_queue (syncStore w1)) = [''/courses/constructor'']"
    by (simp add: sortBy_def)
  obtain r2 w2 where sv: "saveData ''courses''
       [(''constructor'', inherited\<lparr>status := Some Pending, syncAttempts := None\<rparr>)] e w1 = (r2, w2)"
    by (cases "saveData ''courses''
       [(''constructor'', inherited\<lparr>status := Some Pending, syncAttempts := None\<rparr>)] e w1")
  with saveData_accepted [OF acc,
         of "[(''constructor'', inherited\<lparr>status := Some Pending, syncAttempts := None\<rparr>)]" w1]
  have r2: "r2 = Inr ()" and q2: "syncStore w2 = syncStore w1" by simp_all
  have "syncItem ''courses'' ''constructor'' e w = (Inr (), w2\<lparr>st_isSyncing := False\<rparr>)"
    using en r1 sv r2
    by (simp add: syncItem_def g sp Let_def operation_def inherited_def)
  with q1' q2 have s: "map endpoint (persisted_queue (syncStore
        (snd (syncItem ''courses'' ''constructor'' e w)))) = [''/courses/constructor'']"
    by simp
  from m r s show ?thesis
    unfolding e_def w_def by (simp add: hook_with_def)
qed

end
